theory Spec2Isabelle
  imports Main "HOL-Library.AList"
begin

section \<open>JavaScript values and objects\<close>

text \<open>
  The library is one TypeScript class, \<open>Form\<close> (src/index.ts), around an Axios client.
  Its behaviour depends on which object a reference points to (the \<open>fields\<close> getter hands
  out the internal object, \<open>setError\<close> replaces the \<open>errors\<close> object, the field setters
  change it in place), so objects that the class allocates or mutates live in a store and
  are named by their address (\<open>Ref\<close>). Objects that the class only reads (a parsed response
  body, the failure object of a rejected request) are written as literals (\<open>Obj\<close>, \<open>Arr\<close>).

  An object is the list of its own enumerable properties in enumeration order; creating a
  property appends it, as JavaScript does for names that are not array indices.
  Properties inherited from \<open>Object.prototype\<close> are not modelled: the class reads the
  names \<open>response\<close>, \<open>status\<close>, \<open>data\<close>, \<open>errors\<close>, \<open>0\<close> and names it has
  enumerated, none of which is inherited.
  Numbers are integers here: the code only tests a number for truthiness, compares the
  response status with 422, and may turn a number into a property name.

  The class never looks into the value of a field and never changes it: it copies field
  values from one object to another as they are. A field value is a \<open>jsval\<close>, and where
  it is an object, the copy is the same object.
\<close>

type_synonym addr = nat

datatype jsval =
    Undefined
  | Null
  | Bool bool
  | Num int
  | Str string
  | Arr "jsval list"
  | Obj "(string \<times> jsval) list"
  | Ref addr

type_synonym obj = "(string \<times> jsval) list"

text \<open>The value thrown when a property of \<open>undefined\<close> or \<open>null\<close> is read.\<close>

definition TypeError :: jsval where
  "TypeError = Obj [(''name'', Str ''TypeError'')]"

definition lookup :: "obj \<Rightarrow> string \<Rightarrow> jsval" where
  "lookup ps k = (case map_of ps k of Some v \<Rightarrow> v | None \<Rightarrow> Undefined)"

fun truthy :: "jsval \<Rightarrow> bool" where
  "truthy Undefined = False"
| "truthy Null = False"
| "truthy (Bool b) = b"
| "truthy (Num n) = (n \<noteq> 0)"
| "truthy (Str s) = (s \<noteq> [])"
| "truthy (Arr xs) = True"
| "truthy (Obj ps) = True"
| "truthy (Ref a) = True"

fun js_typeof :: "jsval \<Rightarrow> string" where
  "js_typeof Undefined = ''undefined''"
| "js_typeof Null = ''object''"
| "js_typeof (Bool b) = ''boolean''"
| "js_typeof (Num n) = ''number''"
| "js_typeof (Str s) = ''string''"
| "js_typeof (Arr xs) = ''object''"
| "js_typeof (Obj ps) = ''object''"
| "js_typeof (Ref a) = ''object''"

definition digit :: "nat \<Rightarrow> char" where
  "digit n = ''0123456789'' ! n"

fun show_nat :: "nat \<Rightarrow> string" where
  "show_nat n = (if n < 10 then [digit n] else show_nat (n div 10) @ [digit (n mod 10)])"

definition show_int :: "int \<Rightarrow> string" where
  "show_int i = (if i < 0 then ''-'' @ show_nat (nat (- i)) else show_nat (nat i))"

text \<open>
  The name under which a computed key \<open>{ [key]: ... }\<close> is stored. \<open>setError\<close> computes a
  key only from a value whose \<open>typeof\<close> is not \<open>'object'\<close>, so the last three equations
  are never reached by the code.
\<close>

fun to_property_key :: "jsval \<Rightarrow> string" where
  "to_property_key (Str s) = s"
| "to_property_key (Num n) = show_int n"
| "to_property_key (Bool b) = (if b then ''true'' else ''false'')"
| "to_property_key Undefined = ''undefined''"
| "to_property_key Null = ''null''"
| "to_property_key (Arr xs) = ''[object Object]''"
| "to_property_key (Obj ps) = ''[object Object]''"
| "to_property_key (Ref a) = ''[object Object]''"

text \<open>\<open>Object.assign(target, source)\<close>: every own property of the source is set on the target.\<close>

definition object_assign :: "obj \<Rightarrow> obj \<Rightarrow> obj" where
  "object_assign target source = fold (\<lambda>(k, v). AList.update k v) source target"

section \<open>The form, its callbacks and the world\<close>

text \<open>
  \<open>priv_initialData\<close> and \<open>priv_fields\<close> are the private members \<open>_initialData\<close> and \<open>_fields\<close>.
  \<open>accessors\<close> are the names for which the constructor has installed a getter and setter
  (\<open>Object.defineProperty\<close>), \<open>props\<close> the plain data properties set through the index
  signature \<open>[key: string]: any\<close>. In the code a field or property named like a member
  of the class (\<open>errors\<close>, \<open>processing\<close>, \<open>post\<close>, \<open>reset\<close>, ...) replaces or shadows
  that member; the record keeps members and fields apart, so it describes the forms that
  have no such name (\<open>declarable\<close>, \<open>plain\<close> and \<open>unshadowed\<close> below).
\<close>

record form =
  priv_initialData :: addr
  priv_fields :: addr
  errors :: addr
  processing :: bool
  accessors :: "string list"
  props :: obj

text \<open>
  The callbacks of \<open>ResponseOption\<close> are the caller's code. A callback is given by how it
  completes on its argument: \<open>None\<close> when it returns, \<open>Some e\<close> when it throws \<open>e\<close>.
  Every invocation is recorded, with the arguments passed and with what the callback can
  see of the form at that moment. What the body of a callback does to a form is the
  caller's program, not the library's, and is not part of this model.
\<close>

record options =
  onSuccess :: "(jsval \<Rightarrow> jsval option) option"
  onValidationErrors :: "(jsval \<Rightarrow> jsval option) option"
  onError :: "(jsval \<Rightarrow> jsval option) option"
  onFinish :: "(unit \<Rightarrow> jsval option) option"

datatype cbname = OnSuccess | OnValidationErrors | OnError | OnFinish

record call =
  callee :: cbname
  args :: "jsval list"
  on_form :: addr
  processing_then :: bool
  errors_then :: obj

text \<open>
  An Axios instance is known by its identity only: \<open>Default n\<close> is the \<open>n\<close>-th instance made
  by \<open>axios.create({})\<close>, \<open>Supplied n\<close> an instance configured by the caller.
\<close>

datatype client = Default nat | Supplied nat

text \<open>
  \<open>http\<close> is the static member \<open>Form.http\<close>. \<open>sent\<close> lists the requests handed to a client,
  each with its configuration object; \<open>pending\<close> holds, for every request whose promise has
  not settled yet, the form and the callbacks that its handlers have captured.
  \<open>unhandled\<close> collects the rejections that leave the promise chain.
\<close>

record world =
  objs :: "addr \<Rightarrow> obj"
  forms :: "addr \<Rightarrow> form"
  next_addr :: addr
  http :: "client option"
  created :: nat
  sent :: "(client \<times> obj) list"
  pending :: "(nat \<times> addr \<times> options) list"
  calls :: "call list"
  unhandled :: "jsval list"

definition alloc :: "obj \<Rightarrow> world \<Rightarrow> addr \<times> world" where
  "alloc ob w =
     (next_addr w, w\<lparr>objs := (objs w)(next_addr w := ob), next_addr := Suc (next_addr w)\<rparr>)"

definition upd_form :: "addr \<Rightarrow> (form \<Rightarrow> form) \<Rightarrow> world \<Rightarrow> world" where
  "upd_form this g w = w\<lparr>forms := (forms w)(this := g (forms w this))\<rparr>"

definition upd_obj :: "addr \<Rightarrow> (obj \<Rightarrow> obj) \<Rightarrow> world \<Rightarrow> world" where
  "upd_obj a g w = w\<lparr>objs := (objs w)(a := g (objs w a))\<rparr>"

text \<open>Reading a property whose name is not an array index (\<open>v.response\<close>, \<open>v.data\<close>, ...).\<close>

fun get_prop :: "world \<Rightarrow> jsval \<Rightarrow> string \<Rightarrow> jsval + jsval" where
  "get_prop w Undefined k = Inl TypeError"
| "get_prop w Null k = Inl TypeError"
| "get_prop w (Obj ps) k = Inr (lookup ps k)"
| "get_prop w (Ref a) k = Inr (lookup (objs w a) k)"
| "get_prop w (Bool b) k = Inr Undefined"
| "get_prop w (Num n) k = Inr Undefined"
| "get_prop w (Str s) k = Inr Undefined"
| "get_prop w (Arr xs) k = Inr Undefined"

text \<open>Reading element zero, \<open>v[0]\<close>.\<close>

fun index0 :: "world \<Rightarrow> jsval \<Rightarrow> jsval + jsval" where
  "index0 w Undefined = Inl TypeError"
| "index0 w Null = Inl TypeError"
| "index0 w (Arr xs) = Inr (case xs of [] \<Rightarrow> Undefined | x # _ \<Rightarrow> x)"
| "index0 w (Str s) = Inr (case s of [] \<Rightarrow> Undefined | c # _ \<Rightarrow> Str [c])"
| "index0 w (Obj ps) = Inr (lookup ps ''0'')"
| "index0 w (Ref a) = Inr (lookup (objs w a) ''0'')"
| "index0 w (Bool b) = Inr Undefined"
| "index0 w (Num n) = Inr Undefined"

text \<open>The names and values that \<open>for (const k in v)\<close> visits, for \<open>v\<close> of type \<open>'object'\<close>.\<close>

fun for_in :: "world \<Rightarrow> jsval \<Rightarrow> obj" where
  "for_in w (Obj ps) = ps"
| "for_in w (Arr xs) = zip (map show_nat [0..<length xs]) xs"
| "for_in w (Ref a) = objs w a"
| "for_in w Null = []"
| "for_in w Undefined = []"
| "for_in w (Bool b) = []"
| "for_in w (Num n) = []"
| "for_in w (Str s) = []"

section \<open>class Form\<close>

subsection \<open>Field accessors and the constructor\<close>

text \<open>\<open>this._fields[key]\<close>, the body of the getter installed for each declared field.\<close>

definition accessor_get :: "world \<Rightarrow> addr \<Rightarrow> string \<Rightarrow> jsval" where
  "accessor_get w this key = lookup (objs w (priv_fields (forms w this))) key"

text \<open>
  The setter: \<open>this._fields[key] = value\<close>, then the key is deleted from the current
  \<open>errors\<close> object if that object has it. Both change an existing object in place.
\<close>

definition accessor_set :: "world \<Rightarrow> addr \<Rightarrow> string \<Rightarrow> jsval \<Rightarrow> world" where
  "accessor_set w this key v =
     (let w1 = upd_obj (priv_fields (forms w this)) (AList.update key v) w;
          e = errors (forms w1 this)
      in if key \<in> fst ` set (objs w1 e) then upd_obj e (AList.delete key) w1 else w1)"

text \<open>
  \<open>this[key]\<close> and \<open>this[key] = value\<close> on a form: through the accessor where one is
  installed, on a plain data property otherwise.
\<close>

definition get_property :: "world \<Rightarrow> addr \<Rightarrow> string \<Rightarrow> jsval" where
  "get_property w this key =
     (if key \<in> set (accessors (forms w this)) then accessor_get w this key
      else lookup (props (forms w this)) key)"

definition set_property :: "world \<Rightarrow> addr \<Rightarrow> string \<Rightarrow> jsval \<Rightarrow> world" where
  "set_property w this key v =
     (if key \<in> set (accessors (forms w this)) then accessor_set w this key v
      else upd_form this (\<lambda>f. f\<lparr>props := AList.update key v (props f)\<rparr>) w)"

text \<open>\<open>Object.defineProperty(this, key, {get, set, ...})\<close> replaces a data property of that name.\<close>

definition define_accessor :: "world \<Rightarrow> addr \<Rightarrow> string \<Rightarrow> world" where
  "define_accessor w this key =
     upd_form this (\<lambda>f. f\<lparr>accessors := List.insert key (accessors f),
                          props := AList.delete key (props f)\<rparr>) w"

text \<open>The loop of the constructor over \<open>Object.keys(this._fields)\<close>.\<close>

fun expose :: "world \<Rightarrow> addr \<Rightarrow> string list \<Rightarrow> world" where
  "expose w this [] = w"
| "expose w this (key # keys) =
     (let w1 = set_property w this key (lookup (objs w (priv_fields (forms w this))) key);
          w2 = upd_obj (errors (forms w1 this)) (AList.update key Null) w1;
          w3 = define_accessor w2 this key
      in expose w3 this keys)"

text \<open>
  \<open>new Form(fields)\<close>. The member initialisers run first (three empty objects, \<open>processing\<close>
  false), then the body of the constructor. \<open>init\<close> is the content of the object passed as
  \<open>fields\<close>.
\<close>

definition Form :: "world \<Rightarrow> obj \<Rightarrow> addr \<times> world" where
  "Form w init =
     (let this = next_addr w;
          (i0, w1) = alloc [] (w\<lparr>next_addr := Suc this\<rparr>);
          (f0, w2) = alloc [] w1;
          (e0, w3) = alloc [] w2;
          w4 = w3\<lparr>forms := (forms w3)(this :=
                 \<lparr>priv_initialData = i0, priv_fields = f0, errors = e0, processing = False,
                  accessors = [], props = []\<rparr>)\<rparr>;
          (i, w5) = alloc (object_assign [] init) w4;
          w6 = upd_form this (\<lambda>f. f\<lparr>priv_initialData := i\<rparr>) w5;
          (fl, w7) = alloc (object_assign [] init) w6;
          w8 = upd_form this (\<lambda>f. f\<lparr>priv_fields := fl\<rparr>) w7
      in (this, expose w8 this (map fst (objs w8 (priv_fields (forms w8 this))))))"

subsection \<open>Static client, getters, error management\<close>

definition setAxiosInstance :: "world \<Rightarrow> client \<Rightarrow> world" where
  "setAxiosInstance w axiosInstance = w\<lparr>http := Some axiosInstance\<rparr>"

text \<open>\<open>axios.create({})\<close> makes a new instance each time it is called.\<close>

definition axios_create :: "world \<Rightarrow> client \<times> world" where
  "axios_create w = (Default (created w), w\<lparr>created := Suc (created w)\<rparr>)"

text \<open>The getter \<open>fields\<close> returns the member itself, not a copy.\<close>

definition fields_get :: "world \<Rightarrow> addr \<Rightarrow> jsval" where
  "fields_get w this = Ref (priv_fields (forms w this))"

definition hasErrors :: "world \<Rightarrow> addr \<Rightarrow> bool" where
  "hasErrors w this = (length (map fst (objs w (errors (forms w this)))) > 0)"

definition clearErrors :: "world \<Rightarrow> addr \<Rightarrow> addr \<times> world" where
  "clearErrors w this =
     (let (e, w1) = alloc [] w in (this, upd_form this (\<lambda>f. f\<lparr>errors := e\<rparr>) w1))"

text \<open>
  The branch of \<open>setError\<close> for a key that is not an object:
  \<open>this.errors = Object.assign({}, this.errors, { [key]: message })\<close>. For the one name
  \<open>__proto__\<close> the assignment made by \<open>Object.assign\<close> reaches the setter inherited from
  \<open>Object.prototype\<close> and creates no property; here the name is stored like any other, so
  the statements about the entries that \<open>setError\<close> leaves exclude that name.
\<close>

definition setError_key :: "world \<Rightarrow> addr \<Rightarrow> string \<Rightarrow> jsval \<Rightarrow> world" where
  "setError_key w this key message =
     (let (e, w1) = alloc (object_assign (object_assign [] (objs w (errors (forms w this))))
                             [(key, message)]) w
      in upd_form this (\<lambda>f. f\<lparr>errors := e\<rparr>) w1)"

text \<open>
  The loop \<open>for (const newKey in key) this.setError(newKey, key[newKey][0])\<close>. The inner
  call has a string as its key, so it takes the branch above. Reading \<open>[0]\<close> of \<open>undefined\<close>
  or \<open>null\<close> throws; what the earlier rounds have stored stays.
\<close>

fun setError_each :: "world \<Rightarrow> addr \<Rightarrow> obj \<Rightarrow> jsval option \<times> world" where
  "setError_each w this [] = (None, w)"
| "setError_each w this ((newKey, v) # rest) =
     (case index0 w v of
        Inl e \<Rightarrow> (Some e, w)
      | Inr m \<Rightarrow> setError_each (setError_key w this newKey m) this rest)"

text \<open>\<open>setError(key, message)\<close>: \<open>Inr this\<close> when it returns, \<open>Inl e\<close> when it throws \<open>e\<close>.\<close>

definition setError :: "world \<Rightarrow> addr \<Rightarrow> jsval \<Rightarrow> jsval \<Rightarrow> (jsval + addr) \<times> world" where
  "setError w this key message =
     (if js_typeof key = ''object'' then
        (case setError_each w this (for_in w key) of
           (Some e, w1) \<Rightarrow> (Inl e, w1)
         | (None, w1) \<Rightarrow> (Inr this, w1))
      else (Inr this, setError_key w this (to_property_key key) message))"

subsection \<open>Submission\<close>

text \<open>
  \<open>request\<close> runs up to the call of the client and returns; the three handlers run when the
  promise of the request settles. The configuration is \<open>{ method, url, ...data }\<close>; every
  caller in the class passes \<open>data\<close>, so its default \<open>{}\<close> is the empty list here. After
  the first line the slot \<open>Form.http\<close> holds a client, so the case \<open>None\<close> at the end is
  never taken.
\<close>

definition request :: "world \<Rightarrow> addr \<Rightarrow> string \<Rightarrow> string \<Rightarrow> obj \<Rightarrow> options \<Rightarrow> world" where
  "request w this method url data opts =
     (let w1 = (if http w = None
                then (let (c, w') = axios_create w in setAxiosInstance w' c) else w);
          w2 = upd_form this (\<lambda>f. f\<lparr>processing := True\<rparr>) w1;
          w3 = snd (clearErrors w2 this);
          config = object_assign [(''method'', Str method), (''url'', Str url)] data
      in case http w3 of
           None \<Rightarrow> w3
         | Some c \<Rightarrow> w3\<lparr>sent := sent w3 @ [(c, config)],
                        pending := pending w3 @ [(length (sent w3), this, opts)]\<rparr>)"

definition post :: "world \<Rightarrow> addr \<Rightarrow> string \<Rightarrow> options \<Rightarrow> world" where
  "post w this route opts = request w this ''post'' route [(''data'', fields_get w this)] opts"

definition put :: "world \<Rightarrow> addr \<Rightarrow> string \<Rightarrow> options \<Rightarrow> world" where
  "put w this route opts = request w this ''put'' route [(''data'', fields_get w this)] opts"

definition patch :: "world \<Rightarrow> addr \<Rightarrow> string \<Rightarrow> options \<Rightarrow> world" where
  "patch w this route opts = request w this ''patch'' route [(''data'', fields_get w this)] opts"

definition delete :: "world \<Rightarrow> addr \<Rightarrow> string \<Rightarrow> options \<Rightarrow> world" where
  "delete w this route opts = request w this ''delete'' route [] opts"

text \<open>Calling a callback: the call is recorded, the callback's completion is returned.\<close>

definition invoke :: "world \<Rightarrow> addr \<Rightarrow> cbname \<Rightarrow> jsval list \<Rightarrow> world" where
  "invoke w this name as =
     w\<lparr>calls := calls w @
        [\<lparr>callee = name, args = as, on_form = this,
          processing_then = processing (forms w this),
          errors_then = objs w (errors (forms w this))\<rparr>]\<rparr>"

datatype outcome = Fulfilled jsval | Rejected jsval

text \<open>\<open>.then(({ data }) => { if (options.onSuccess) options.onSuccess(data) })\<close>\<close>

definition then_handler :: "world \<Rightarrow> addr \<Rightarrow> options \<Rightarrow> jsval \<Rightarrow> outcome \<times> world" where
  "then_handler w this opts response =
     (case get_prop w response ''data'' of
        Inl e \<Rightarrow> (Rejected e, w)
      | Inr d \<Rightarrow>
          (case onSuccess opts of
             None \<Rightarrow> (Fulfilled Undefined, w)
           | Some cb \<Rightarrow>
               (case cb d of
                  Some e \<Rightarrow> (Rejected e, invoke w this OnSuccess [d])
                | None \<Rightarrow> (Fulfilled Undefined, invoke w this OnSuccess [d]))))"

text \<open>The tail of the catch handler, after the test for status 422 has failed.\<close>

definition report_error :: "world \<Rightarrow> addr \<Rightarrow> options \<Rightarrow> jsval \<Rightarrow> outcome \<times> world" where
  "report_error w this opts error =
     (case onError opts of
        None \<Rightarrow> (Fulfilled Undefined, w)
      | Some cb \<Rightarrow>
          (case cb error of
             Some e \<Rightarrow> (Rejected e, invoke w this OnError [error])
           | None \<Rightarrow> (Fulfilled Undefined, invoke w this OnError [error])))"

text \<open>The 422 branch, from \<open>const validationErrors = error.response.data\<close> to \<open>return\<close>.\<close>

definition validation_branch :: "world \<Rightarrow> addr \<Rightarrow> options \<Rightarrow> jsval \<Rightarrow> outcome \<times> world" where
  "validation_branch w this opts response =
     (case get_prop w response ''data'' of
        Inl e \<Rightarrow> (Rejected e, w)
      | Inr validationErrors \<Rightarrow>
          (let (thrown, w1) =
                 (if truthy validationErrors
                  then (case get_prop w validationErrors ''errors'' of
                          Inl e \<Rightarrow> (Some e, w)
                        | Inr errs \<Rightarrow>
                            (if truthy errs
                             then (case setError w this errs Undefined of
                                     (Inl e, w') \<Rightarrow> (Some e, w')
                                   | (Inr _, w') \<Rightarrow> (None, w'))
                             else (None, w)))
                  else (None, w))
           in case thrown of
                Some e \<Rightarrow> (Rejected e, w1)
              | None \<Rightarrow>
                  (case onValidationErrors opts of
                     None \<Rightarrow> (Fulfilled Undefined, w1)
                   | Some cb \<Rightarrow>
                       (let arg = Ref (errors (forms w1 this)) in
                        case cb arg of
                          Some e \<Rightarrow> (Rejected e, invoke w1 this OnValidationErrors [arg])
                        | None \<Rightarrow> (Fulfilled Undefined, invoke w1 this OnValidationErrors [arg])))))"

text \<open>\<open>.catch((error) => { if (error.response && error.response.status === 422) ... })\<close>\<close>

definition catch_handler :: "world \<Rightarrow> addr \<Rightarrow> options \<Rightarrow> jsval \<Rightarrow> outcome \<times> world" where
  "catch_handler w this opts error =
     (case get_prop w error ''response'' of
        Inl e \<Rightarrow> (Rejected e, w)
      | Inr response \<Rightarrow>
          (if truthy response
           then (case get_prop w response ''status'' of
                   Inl e \<Rightarrow> (Rejected e, w)
                 | Inr status \<Rightarrow>
                     (if status = Num 422 then validation_branch w this opts response
                      else report_error w this opts error))
           else report_error w this opts error))"

text \<open>\<open>.finally(() => { this.processing = false; if (options.onFinish) options.onFinish() })\<close>\<close>

definition finally_handler :: "world \<Rightarrow> addr \<Rightarrow> options \<Rightarrow> jsval option \<times> world" where
  "finally_handler w this opts =
     (let w1 = upd_form this (\<lambda>f. f\<lparr>processing := False\<rparr>) w
      in case onFinish opts of
           None \<Rightarrow> (None, w1)
         | Some cb \<Rightarrow> (cb (), invoke w1 this OnFinish []))"

text \<open>
  The success/error branch of a settled request: the then handler runs on fulfilment, the
  catch handler on a rejection, also on one thrown by the then handler.
\<close>

definition branch :: "world \<Rightarrow> addr \<Rightarrow> options \<Rightarrow> outcome \<Rightarrow> outcome \<times> world" where
  "branch w this opts result =
     (let (p2, w1) = (case result of
                        Fulfilled r \<Rightarrow> then_handler w this opts r
                      | Rejected e \<Rightarrow> (Rejected e, w))
      in case p2 of
           Fulfilled v \<Rightarrow> (Fulfilled v, w1)
         | Rejected e \<Rightarrow> catch_handler w1 this opts e)"

text \<open>
  The promise of request number \<open>rid\<close> settles with \<open>result\<close>: its handlers run in the order
  then, catch, finally, and nothing else is taken to run between them. A promise settles
  once, so the request leaves \<open>pending\<close>.
\<close>

definition settle :: "world \<Rightarrow> nat \<Rightarrow> outcome \<Rightarrow> world" where
  "settle w rid result =
     (case map_of (pending w) rid of
        None \<Rightarrow> w
      | Some (this, opts) \<Rightarrow>
          (let w0 = w\<lparr>pending := AList.delete rid (pending w)\<rparr>;
               (p3, w2) = branch w0 this opts result;
               (thrown, w3) = finally_handler w2 this opts;
               p4 = (case thrown of Some e \<Rightarrow> Rejected e | None \<Rightarrow> p3)
           in case p4 of
                Rejected e \<Rightarrow> w3\<lparr>unhandled := unhandled w3 @ [e]\<rparr>
              | Fulfilled v \<Rightarrow> w3))"

subsection \<open>reset and the exported functions\<close>

text \<open>The loop of \<open>reset\<close>: \<open>this[key] = this._fields[key]\<close> for every key of the new \<open>_fields\<close>.\<close>

fun reassign :: "world \<Rightarrow> addr \<Rightarrow> string list \<Rightarrow> world" where
  "reassign w this [] = w"
| "reassign w this (key # keys) =
     reassign (set_property w this key (lookup (objs w (priv_fields (forms w this))) key))
       this keys"

definition reset :: "world \<Rightarrow> addr \<Rightarrow> addr \<times> world" where
  "reset w this =
     (let (fl, w1) = alloc (object_assign [] (objs w (priv_initialData (forms w this)))) w;
          w2 = upd_form this (\<lambda>f. f\<lparr>priv_fields := fl\<rparr>) w1;
          w3 = reassign w2 this (map fst (objs w2 (priv_fields (forms w2 this))))
      in clearErrors w3 this)"

definition useForm :: "world \<Rightarrow> obj \<Rightarrow> addr \<times> world" where
  "useForm w init = Form w init"

definition setFormAxios :: "world \<Rightarrow> client \<Rightarrow> world" where
  "setFormAxios w axios = setAxiosInstance w axios"

section \<open>Programs that use the library\<close>

text \<open>
  Address 0 stands for no object: in the world before any form exists, every cell of the
  store is empty and nothing has been sent.
\<close>

definition init_world :: world where
  "init_world =
     \<lparr>objs = (\<lambda>a. []),
      forms = (\<lambda>a. \<lparr>priv_initialData = 0, priv_fields = 0, errors = 0, processing = False,
                     accessors = [], props = []\<rparr>),
      next_addr = 1, http = None, created = 0, sent = [], pending = [], calls = [],
      unhandled = []\<rparr>"

text \<open>\<open>r[key] = value\<close> by the caller, on an object it holds a reference to.\<close>

definition assign_prop :: "world \<Rightarrow> jsval \<Rightarrow> string \<Rightarrow> jsval \<Rightarrow> world" where
  "assign_prop w r key v = (case r of Ref a \<Rightarrow> upd_obj a (AList.update key v) w | _ \<Rightarrow> w)"

text \<open>
  What a caller can do with forms: construct one, write a property, manage errors, submit,
  and write through the object that the \<open>fields\<close> getter returned. \<open>Settle\<close> is the HTTP
  client answering a request. A \<open>setError\<close> that throws leaves the state it has reached.
\<close>

datatype op =
    UseForm obj
  | Write addr string jsval
  | WriteThroughFields addr string jsval
  | SetError addr jsval jsval
  | ClearErrors addr
  | Reset addr
  | Post addr string options
  | Put addr string options
  | Patch addr string options
  | Delete addr string options
  | Settle nat outcome
  | SetFormAxios client

fun exec :: "world \<Rightarrow> op \<Rightarrow> world" where
  "exec w (UseForm init) = snd (useForm w init)"
| "exec w (Write this key v) = set_property w this key v"
| "exec w (WriteThroughFields this key v) = assign_prop w (fields_get w this) key v"
| "exec w (SetError this key message) = snd (setError w this key message)"
| "exec w (ClearErrors this) = snd (clearErrors w this)"
| "exec w (Reset this) = snd (reset w this)"
| "exec w (Post this route opts) = post w this route opts"
| "exec w (Put this route opts) = put w this route opts"
| "exec w (Patch this route opts) = patch w this route opts"
| "exec w (Delete this route opts) = delete w this route opts"
| "exec w (Settle rid result) = settle w rid result"
| "exec w (SetFormAxios c) = setFormAxios w c"

definition run :: "world \<Rightarrow> op list \<Rightarrow> world" where
  "run w ops = fold (\<lambda>x w'. exec w' x) ops w"

section \<open>Notions used in the statements\<close>

text \<open>
  The statements below read the content of a form's two objects through these names.
\<close>

abbreviation errors_of :: "world \<Rightarrow> addr \<Rightarrow> obj" where
  "errors_of w this \<equiv> objs w (errors (forms w this))"

abbreviation fields_of :: "world \<Rightarrow> addr \<Rightarrow> obj" where
  "fields_of w this \<equiv> objs w (priv_fields (forms w this))"

text \<open>
  The shape of a validation body: an array, its first element (\<open>undefined\<close> when there
  is none), and a non-empty list of strings.
\<close>

fun is_array :: "jsval \<Rightarrow> bool" where
  "is_array (Arr xs) = True"
| "is_array v = False"

fun head_of :: "jsval \<Rightarrow> jsval" where
  "head_of (Arr (x # xs)) = x"
| "head_of v = Undefined"

fun is_string :: "jsval \<Rightarrow> bool" where
  "is_string (Str s) = True"
| "is_string v = False"

fun message_list :: "jsval \<Rightarrow> bool" where
  "message_list (Arr (x # xs)) = list_all is_string (x # xs)"
| "message_list v = False"

text \<open>
  \<open>same_io\<close>: nothing was sent, no request became or ceased to be pending, and the
  client slot is untouched. \<open>same_log\<close>: no callback was called. \<open>no_finish\<close>: callbacks
  may have been called, but not \<open>onFinish\<close>.
\<close>

definition same_io :: "world \<Rightarrow> world \<Rightarrow> bool" where
  "same_io w w' \<longleftrightarrow>
     http w' = http w \<and> created w' = created w \<and> sent w' = sent w \<and> pending w' = pending w"

definition same_log :: "world \<Rightarrow> world \<Rightarrow> bool" where
  "same_log w w' \<longleftrightarrow> calls w' = calls w \<and> unhandled w' = unhandled w"

definition no_finish :: "world \<Rightarrow> world \<Rightarrow> bool" where
  "no_finish w w' \<longleftrightarrow> (\<exists>cs. calls w' = calls w @ cs \<and> OnFinish \<notin> callee ` set cs)"


text \<open>The operations that submit the form \<open>this\<close>.\<close>

fun submits :: "addr \<Rightarrow> op \<Rightarrow> bool" where
  "submits this (Post t route opts) = (t = this)"
| "submits this (Put t route opts) = (t = this)"
| "submits this (Patch t route opts) = (t = this)"
| "submits this (Delete t route opts) = (t = this)"
| "submits this x = False"

subsection \<open>Well-formed worlds and field names\<close>

text \<open>
  Every object that a form points to has been allocated. The code keeps this true: a
  pointer is only ever set to an object allocated just before.
\<close>

definition wf_world :: "world \<Rightarrow> bool" where
  "wf_world w \<longleftrightarrow>
     (\<forall>t. priv_initialData (forms w t) < next_addr w \<and> priv_fields (forms w t) < next_addr w
          \<and> errors (forms w t) < next_addr w)"

text \<open>
  What stays true of the form \<open>this\<close> whatever is done to it or to other forms: its
  \<open>_initialData\<close> is the object \<open>a0\<close> with content \<open>init\<close>, no form uses \<open>a0\<close> as
  its \<open>_fields\<close> or \<open>errors\<close>, the names in \<open>K\<close> have accessors, and \<open>_fields\<close> and \<open>errors\<close>
  are different objects.
\<close>

definition keeps :: "addr \<Rightarrow> addr \<Rightarrow> obj \<Rightarrow> string set \<Rightarrow> world \<Rightarrow> bool" where
  "keeps this a0 init K w \<longleftrightarrow>
     wf_world w \<and> this < next_addr w \<and> a0 < next_addr w
     \<and> priv_initialData (forms w this) = a0 \<and> objs w a0 = init
     \<and> K \<subseteq> set (accessors (forms w this))
     \<and> priv_fields (forms w this) \<noteq> errors (forms w this)
     \<and> (\<forall>t. priv_fields (forms w t) \<noteq> a0 \<and> errors (forms w t) \<noteq> a0)"

text \<open>The world in which the loop of the constructor starts, written out.\<close>

definition built :: "world \<Rightarrow> obj \<Rightarrow> world" where
  "built w init =
     w\<lparr>objs := (objs w)(Suc (next_addr w) := [], Suc (Suc (next_addr w)) := [],
                  Suc (Suc (Suc (next_addr w))) := [],
                  Suc (Suc (Suc (Suc (next_addr w)))) := object_assign [] init,
                  Suc (Suc (Suc (Suc (Suc (next_addr w))))) := object_assign [] init),
       next_addr := Suc (Suc (Suc (Suc (Suc (Suc (next_addr w)))))),
       forms := (forms w)(next_addr w :=
          \<lparr>priv_initialData = Suc (Suc (Suc (Suc (next_addr w)))),
           priv_fields = Suc (Suc (Suc (Suc (Suc (next_addr w))))),
           errors = Suc (Suc (Suc (next_addr w))), processing = False, accessors = [],
           props = []\<rparr>)\<rparr>"

text \<open>
  The members of class \<open>Form\<close> and of its prototype. A field or property of one of these
  names would replace or shadow the member; the model keeps fields and members apart, so
  the results below are stated for names that are none of these. An object has each of its
  property names once.
\<close>

definition member_names :: "string list" where
  "member_names =
     [''_initialData'', ''_fields'', ''errors'', ''processing'', ''constructor'', ''fields'',
      ''hasErrors'', ''clearErrors'', ''setError'', ''request'', ''post'', ''put'', ''patch'',
      ''delete'', ''reset'', ''__proto__'']"

definition declarable :: "obj \<Rightarrow> bool" where
  "declarable init \<longleftrightarrow>
     distinct (map fst init) \<and> (\<forall>k \<in> set (map fst init). k \<notin> set member_names)"

fun plain :: "op \<Rightarrow> bool" where
  "plain (UseForm init) = declarable init"
| "plain (Write this key v) = (key \<notin> set member_names)"
| "plain x = True"

text \<open>
  The same of a form as it stands: none of its fields and none of its plain properties
  has the name of a member, so \<open>form.processing\<close>, \<open>form.errors\<close>, \<open>form.post\<close> and the
  others are the members that the class defines.
\<close>

definition unshadowed :: "world \<Rightarrow> addr \<Rightarrow> bool" where
  "unshadowed w this \<longleftrightarrow>
     list_all (\<lambda>k. k \<notin> set member_names)
       (accessors (forms w this) @ map fst (props (forms w this)))"

subsection \<open>Concrete scenarios\<close>

text \<open>
  A contact form with two empty fields; the same form after \<open>post\<close> with all four
  callbacks; the same form with an error set on \<open>email\<close>. Three failure objects: a network
  failure without a response, a 422 whose body has no \<open>errors\<close>, and a 422 as Laravel
  sends it. Three sequences of operations: the second and the third make a second form,
  and the third submits the second form only.
\<close>

definition contact_fields :: obj where
  "contact_fields = [(''name'', Str []), (''email'', Str [])]"

definition observers :: options where
  "observers = \<lparr>onSuccess = Some (\<lambda>_. None), onValidationErrors = Some (\<lambda>_. None),
                 onError = Some (\<lambda>_. None), onFinish = Some (\<lambda>_. None)\<rparr>"

definition network_error :: jsval where
  "network_error = Obj [(''message'', Str ''Network Error'')]"

definition contact_world :: world where
  "contact_world = snd (useForm init_world contact_fields)"

definition submitted_world :: world where
  "submitted_world = post contact_world 1 ''/api/contact'' observers"



definition invalid_email_422 :: jsval where
  "invalid_email_422 =
     Obj [(''response'',
           Obj [(''status'', Num 422),
                (''data'',
                 Obj [(''errors'',
                       Obj [(''email'', Arr [Str ''The email field is required.'',
                                             Str ''The email must be valid.''])])])])]"

definition session :: "op list" where
  "session =
     [Write 1 ''name'' (Str ''Ann''), SetError 1 (Str ''email'') (Str ''bad''),
      Post 1 ''/api/contact'' observers, Settle 0 (Rejected network_error),
      WriteThroughFields 1 ''email'' Null]"


definition editing :: "op list" where
  "editing =
     [UseForm [(''title'', Str ''draft'')], Post 7 ''/api/posts'' observers,
      Write 1 ''name'' (Str ''Ann''), SetError 1 (Str ''email'') (Str ''bad''),
      WriteThroughFields 1 ''email'' Null, ClearErrors 1, Reset 1]"

section \<open>Objects\<close>

lemma update_fresh_key: "k \<notin> fst ` set t \<Longrightarrow> AList.update k v t = t @ [(k, v)]"
  by (induction t) auto

lemma object_assign_append:
  "distinct (map fst (t @ s)) \<Longrightarrow> object_assign t s = t @ s"
proof (induction s arbitrary: t)
  case Nil
  then show ?case by (simp add: object_assign_def)
next
  case (Cons p s)
  obtain k v where p: "p = (k, v)" by (cases p)
  from Cons.prems p have fresh: "k \<notin> fst ` set t" by auto
  from Cons.prems p have "distinct (map fst ((t @ [(k, v)]) @ s))" by auto
  from Cons.IH[OF this] have "object_assign (t @ [(k, v)]) s = (t @ [(k, v)]) @ s" .
  then show ?case using p fresh by (simp add: object_assign_def update_fresh_key)
qed

lemma object_assign_copy: "distinct (map fst s) \<Longrightarrow> object_assign [] s = s"
  using object_assign_append[of "[]" s] by simp

lemma object_assign_keys: "fst ` set (object_assign t s) = fst ` set t \<union> fst ` set s"
proof (induction s arbitrary: t)
  case Nil
  then show ?case by (simp add: object_assign_def)
next
  case (Cons p s)
  have "fst ` set (object_assign t (p # s))
        = fst ` set (object_assign (AList.update (fst p) (snd p) t) s)"
    by (simp add: object_assign_def split_beta)
  also have "\<dots> = fst ` set (AList.update (fst p) (snd p) t) \<union> fst ` set s"
    by (rule Cons.IH)
  also have "\<dots> = fst ` set t \<union> fst ` set (p # s)"
    by (simp add: dom_update)
  finally show ?case .
qed

lemma distinct_object_assign:
  "distinct (map fst t) \<Longrightarrow> distinct (map fst (object_assign t s))"
  unfolding object_assign_def
  by (induction s arbitrary: t) (auto simp: distinct_update)

lemma map_of_fold_update_other:
  "f \<notin> fst ` set ps \<Longrightarrow> map_of (fold (\<lambda>(k, v). AList.update k (g v)) ps e) f = map_of e f"
  by (induction ps arbitrary: e) (auto simp: update_conv')

lemma map_of_fold_update:
  "distinct (map fst ps) \<Longrightarrow> (f, v) \<in> set ps \<Longrightarrow>
   map_of (fold (\<lambda>(k, v). AList.update k (g v)) ps e) f = Some (g v)"
proof (induction ps arbitrary: e)
  case Nil
  then show ?case by simp
next
  case (Cons p ps)
  show ?case
  proof (cases "p = (f, v)")
    case True
    with Cons.prems have "f \<notin> fst ` set ps" by auto
    then show ?thesis using True by (simp add: map_of_fold_update_other update_conv')
  next
    case False
    with Cons.prems show ?thesis by (auto intro: Cons.IH)
  qed
qed

lemma get_prop_objs: "objs w' = objs w \<Longrightarrow> get_prop w' v k = get_prop w v k"
  by (cases v) simp_all

lemma truthy_get_prop: "truthy v \<Longrightarrow> \<exists>x. get_prop w v k = Inr x"
  by (cases v) simp_all

lemma index0_array: "is_array v \<Longrightarrow> index0 w v = Inr (head_of v)"
  by (cases v rule: head_of.cases) auto

lemma message_list_array: "message_list v \<Longrightarrow> is_array v"
  by (cases v rule: message_list.cases) simp_all

lemma message_lists_arrays:
  "list_all message_list (map snd ps) \<Longrightarrow> list_all is_array (map snd ps)"
  by (induction ps) (auto simp: message_list_array)

lemma Form_built:
  "Form w init =
     (next_addr w, expose (built w init) (next_addr w) (map fst (object_assign [] init)))"
  by (simp add: Form_def alloc_def upd_form_def built_def Let_def)

lemma fst_useForm: "fst (useForm w init) = next_addr w"
  by (simp add: useForm_def Form_built)

lemma expose_fresh_form:
  assumes "distinct ks" "set ks \<inter> set (accessors (forms w t)) = {}"
  shows "forms (expose w t ks) t
      = (forms w t)\<lparr>accessors := rev ks @ accessors (forms w t),
                     props := fold AList.delete ks (props (forms w t))\<rparr>
    \<and> (\<forall>a. a \<noteq> errors (forms w t) \<longrightarrow> objs (expose w t ks) a = objs w a)
    \<and> errors_of (expose w t ks) t = fold (\<lambda>k. AList.update k Null) ks (errors_of w t)"
  using assms
proof (induction ks arbitrary: w)
  case Nil
  then show ?case by simp
next
  case (Cons k ks)
  let ?w1 = "set_property w t k (lookup (objs w (priv_fields (forms w t))) k)"
  let ?w2 = "upd_obj (errors (forms ?w1 t)) (AList.update k Null) ?w1"
  let ?w3 = "define_accessor ?w2 t k"
  from Cons.prems have k: "k \<notin> set (accessors (forms w t))" by simp
  have f3: "forms ?w3 t = (forms w t)\<lparr>accessors := k # accessors (forms w t),
                                      props := AList.delete k (props (forms w t))\<rparr>"
    using k by (simp add: set_property_def define_accessor_def upd_form_def upd_obj_def
        delete_update_same)
  have o3: "objs ?w3 = (objs w)(errors (forms w t) := AList.update k Null (errors_of w t))"
    using k by (simp add: set_property_def define_accessor_def upd_form_def upd_obj_def)
  have "set ks \<inter> set (accessors (forms ?w3 t)) = {}" "distinct ks"
    using Cons.prems by (auto simp: f3)
  from Cons.IH[OF this(2,1)]
  have ih: "forms (expose ?w3 t ks) t
      = (forms ?w3 t)\<lparr>accessors := rev ks @ accessors (forms ?w3 t),
                       props := fold AList.delete ks (props (forms ?w3 t))\<rparr>"
    "\<And>a. a \<noteq> errors (forms ?w3 t) \<Longrightarrow> objs (expose ?w3 t ks) a = objs ?w3 a"
    "errors_of (expose ?w3 t ks) t = fold (\<lambda>k. AList.update k Null) ks (errors_of ?w3 t)"
    by blast+
  have e3: "errors (forms ?w3 t) = errors (forms w t)" by (simp add: f3)
  have "forms (expose w t (k # ks)) t
      = (forms w t)\<lparr>accessors := rev (k # ks) @ accessors (forms w t),
                     props := fold AList.delete (k # ks) (props (forms w t))\<rparr>"
    unfolding expose.simps Let_def ih(1) by (simp add: f3)
  moreover have "objs (expose w t (k # ks)) a = objs w a" if "a \<noteq> errors (forms w t)" for a
    unfolding expose.simps Let_def using ih(2)[of a] that by (simp add: e3 o3)
  moreover have "errors_of (expose w t (k # ks)) t
      = fold (\<lambda>k. AList.update k Null) (k # ks) (errors_of w t)"
    unfolding expose.simps Let_def ih(3) by (simp add: e3 o3)
  ultimately show ?case by blast
qed

lemma useForm_result:
  assumes "distinct (map fst init)"
  shows "fields_of (snd (useForm w init)) (fst (useForm w init)) = init"
    and "errors_of (snd (useForm w init)) (fst (useForm w init)) = map (\<lambda>k. (k, Null)) (map fst init)"
    and "set (accessors (forms (snd (useForm w init)) (fst (useForm w init)))) = fst ` set init"
    and "props (forms (snd (useForm w init)) (fst (useForm w init))) = []"
proof -
  have e: "fold (\<lambda>k. AList.update k Null) ks acc = acc @ map (\<lambda>k. (k, Null)) ks"
    if "distinct (map fst acc @ ks)" for ks and acc :: obj
    using that
  proof (induction ks arbitrary: acc)
    case Nil
    then show ?case by simp
  next
    case (Cons k ks)
    from Cons.prems have "k \<notin> fst ` set acc" by auto
    then have u: "AList.update k Null acc = acc @ [(k, Null)]" by (rule update_fresh_key)
    from Cons.prems have "distinct (map fst (acc @ [(k, Null)]) @ ks)" by auto
    from Cons.IH[OF this] show ?case by (simp add: u)
  qed
  have d: "fold AList.delete ks [] = ([] :: obj)" for ks :: "string list"
    by (induction ks) simp_all
  note x = expose_fresh_form[of "map fst init" "built w init" "next_addr w"]
  have pre: "distinct (map fst init)"
      "set (map fst init) \<inter> set (accessors (forms (built w init) (next_addr w))) = {}"
    using assms by (simp_all add: built_def)
  from x[OF pre]
  have y: "forms (expose (built w init) (next_addr w) (map fst init)) (next_addr w)
      = (forms (built w init) (next_addr w))
          \<lparr>accessors := rev (map fst init) @ accessors (forms (built w init) (next_addr w)),
           props := fold AList.delete (map fst init) (props (forms (built w init) (next_addr w)))\<rparr>"
    "\<And>a. a \<noteq> errors (forms (built w init) (next_addr w)) \<Longrightarrow>
       objs (expose (built w init) (next_addr w) (map fst init)) a = objs (built w init) a"
    "errors_of (expose (built w init) (next_addr w) (map fst init)) (next_addr w)
      = fold (\<lambda>k. AList.update k Null) (map fst init) (errors_of (built w init) (next_addr w))"
    by blast+
  have b: "forms (built w init) (next_addr w)
      = \<lparr>priv_initialData = Suc (Suc (Suc (Suc (next_addr w)))),
         priv_fields = Suc (Suc (Suc (Suc (Suc (next_addr w))))),
         errors = Suc (Suc (Suc (next_addr w))), processing = False, accessors = [],
         props = []\<rparr>"
    "objs (built w init) (Suc (Suc (Suc (next_addr w)))) = []"
    "objs (built w init) (Suc (Suc (Suc (Suc (Suc (next_addr w)))))) = object_assign [] init"
    by (simp_all add: built_def)
  show "fields_of (snd (useForm w init)) (fst (useForm w init)) = init"
    using y(2)[of "Suc (Suc (Suc (Suc (Suc (next_addr w)))))"] assms
    by (simp add: useForm_def Form_built object_assign_copy y(1) b)
  show "errors_of (snd (useForm w init)) (fst (useForm w init)) = map (\<lambda>k. (k, Null)) (map fst init)"
    using y(3) assms e[of "[]" "map fst init"]
    by (simp add: useForm_def Form_built object_assign_copy y(1) b)
  show "set (accessors (forms (snd (useForm w init)) (fst (useForm w init)))) = fst ` set init"
    using assms by (simp add: useForm_def Form_built object_assign_copy y(1) b)
  show "props (forms (snd (useForm w init)) (fst (useForm w init))) = []"
    using assms d by (simp add: useForm_def Form_built object_assign_copy y(1) b)
qed

section \<open>What the operations leave alone\<close>

lemma same_io_refl [simp]: "same_io w w"
  by (simp add: same_io_def)

lemma same_log_refl [simp]: "same_log w w"
  by (simp add: same_log_def)

lemma same_io_trans: "same_io a b \<Longrightarrow> same_io b c \<Longrightarrow> same_io a c"
  by (simp add: same_io_def)

lemma same_log_trans: "same_log a b \<Longrightarrow> same_log b c \<Longrightarrow> same_log a c"
  by (simp add: same_log_def)

lemma quiet_set_property: "same_io w (set_property w t k v) \<and> same_log w (set_property w t k v)"
  by (simp add: same_io_def same_log_def set_property_def accessor_set_def upd_obj_def
      upd_form_def Let_def)


lemma quiet_setError_key: "same_io w (setError_key w t k m) \<and> same_log w (setError_key w t k m)"
  by (simp add: same_io_def same_log_def setError_key_def alloc_def upd_form_def)

lemma quiet_setError_each:
  "same_io w (snd (setError_each w t ps)) \<and> same_log w (snd (setError_each w t ps))"
proof (induction ps arbitrary: w)
  case Nil
  then show ?case by simp
next
  case (Cons p ps)
  obtain k v where p: "p = (k, v)" by (cases p)
  show ?case
  proof (cases "index0 w v")
    case (Inl e)
    then show ?thesis using p by simp
  next
    case (Inr m)
    from quiet_setError_key[of w t k m] Cons.IH[of "setError_key w t k m"]
    show ?thesis using p Inr by (auto intro: same_io_trans same_log_trans)
  qed
qed

lemma quiet_setError: "same_io w (snd (setError w t k m)) \<and> same_log w (snd (setError w t k m))"
  using quiet_setError_each[of w t "for_in w k"] quiet_setError_key[of w t "to_property_key k" m]
  by (auto simp: setError_def split: prod.splits option.splits)



lemma quiet_expose: "same_io w (expose w t ks) \<and> same_log w (expose w t ks)"
proof (induction ks arbitrary: w)
  case Nil
  then show ?case by simp
next
  case (Cons k ks)
  let ?w1 = "set_property w t k (lookup (objs w (priv_fields (forms w t))) k)"
  let ?w3 = "define_accessor (upd_obj (errors (forms ?w1 t)) (AList.update k Null) ?w1) t k"
  have "same_io ?w1 ?w3 \<and> same_log ?w1 ?w3"
    by (simp add: same_io_def same_log_def define_accessor_def upd_form_def upd_obj_def)
  with quiet_set_property[of w t k] Cons.IH[of ?w3]
  show ?case by (simp add: Let_def) (blast intro: same_io_trans same_log_trans)
qed

lemma quiet_useForm: "same_io w (snd (useForm w init)) \<and> same_log w (snd (useForm w init))"
proof -
  have "same_io w (built w init) \<and> same_log w (built w init)"
    by (simp add: same_io_def same_log_def built_def)
  with quiet_expose[of "built w init"] show ?thesis
    by (simp add: useForm_def Form_built) (blast intro: same_io_trans same_log_trans)
qed


lemma io_invoke: "same_io w (invoke w t n as)"
  by (simp add: same_io_def invoke_def)

lemma io_then_handler: "same_io w (snd (then_handler w t opts r))"
  by (simp add: then_handler_def io_invoke split: sum.splits option.splits)

lemma io_report_error: "same_io w (snd (report_error w t opts e))"
  by (simp add: report_error_def io_invoke split: option.splits)

lemma io_setErrorD: "setError w t k m = (r, w') \<Longrightarrow> same_io w w'"
  using quiet_setError[of w t k m] by simp

lemma io_validation_branch: "same_io w (snd (validation_branch w t opts r))"
  by (auto simp: validation_branch_def Let_def
        intro: same_io_trans[OF _ io_invoke] dest: io_setErrorD
        split: sum.splits option.splits prod.splits)

lemma io_catch_handler: "same_io w (snd (catch_handler w t opts e))"
  by (simp add: catch_handler_def io_report_error io_validation_branch split: sum.splits)

lemma io_finally_handler: "same_io w (snd (finally_handler w t opts))"
  by (simp add: finally_handler_def Let_def same_io_def invoke_def upd_form_def
      split: option.splits)

lemma io_branch: "same_io w (snd (branch w t opts r))"
proof (cases r)
  case (Fulfilled v)
  obtain p w1 where th: "then_handler w t opts v = (p, w1)" by (cases "then_handler w t opts v")
  with io_then_handler[of w t opts v] have 1: "same_io w w1" by simp
  show ?thesis
  proof (cases p)
    case (Fulfilled x)
    then show ?thesis using th 1 \<open>r = Fulfilled v\<close> by (simp add: branch_def)
  next
    case (Rejected e)
    with io_catch_handler[of w1 t opts e] 1 th \<open>r = Fulfilled v\<close>
    show ?thesis by (auto simp: branch_def intro: same_io_trans)
  qed
next
  case (Rejected e)
  then show ?thesis by (simp add: branch_def io_catch_handler)
qed

lemma request_io:
  "http (request w t m u d opts) = Some (case http w of None \<Rightarrow> Default (created w) | Some c \<Rightarrow> c)"
  "sent (request w t m u d opts)
     = sent w @ [(case http w of None \<Rightarrow> Default (created w) | Some c \<Rightarrow> c,
                  object_assign [(''method'', Str m), (''url'', Str u)] d)]"
  "pending (request w t m u d opts) = pending w @ [(length (sent w), t, opts)]"
  "created (request w t m u d opts) = (if http w = None then Suc (created w) else created w)"
  "calls (request w t m u d opts) = calls w"
  by (auto simp: request_def clearErrors_def alloc_def upd_form_def Let_def axios_create_def
      setAxiosInstance_def split: option.splits)

lemma request_processing: "processing (forms (request w t m u d opts) t) = True"
  by (auto simp: request_def clearErrors_def alloc_def upd_form_def Let_def axios_create_def
      setAxiosInstance_def split: option.splits)

lemma next_addr_set_property [simp]: "next_addr (set_property w t k v) = next_addr w"
  by (simp add: set_property_def accessor_set_def upd_obj_def upd_form_def Let_def)

lemma next_addr_reassign [simp]: "next_addr (reassign w t ks) = next_addr w"
  by (induction ks arbitrary: w) simp_all

lemma processing_setError_key:
  "processing (forms (setError_key w t k m) t') = processing (forms w t')"
  by (simp add: setError_key_def alloc_def upd_form_def)

lemma processing_setError_each:
  "processing (forms (snd (setError_each w t ps)) t') = processing (forms w t')"
proof (induction ps arbitrary: w)
  case Nil
  then show ?case by simp
next
  case (Cons p ps)
  obtain k v where p: "p = (k, v)" by (cases p)
  show ?case using p Cons.IH by (cases "index0 w v") (simp_all add: processing_setError_key)
qed

lemma processing_setError:
  "processing (forms (snd (setError w t k m)) t') = processing (forms w t')"
  using processing_setError_each[of w t "for_in w k" t']
  by (auto simp: setError_def processing_setError_key split: prod.splits option.splits)

lemma useForm_not_processing:
  "processing (forms (snd (useForm w init)) (fst (useForm w init))) = False"
proof -
  have e: "processing (forms (expose w' t ks) t) = processing (forms w' t)" for w' t ks
    by (induction ks arbitrary: w')
       (simp_all add: Let_def define_accessor_def upd_form_def upd_obj_def set_property_def
          accessor_set_def)
  show ?thesis by (simp add: useForm_def Form_built e) (simp add: built_def)
qed

section \<open>The handlers of a settled request\<close>

lemma no_finish_refl [simp]: "no_finish w w"
  by (simp add: no_finish_def)

lemma no_finish_trans: "no_finish a b \<Longrightarrow> no_finish b c \<Longrightarrow> no_finish a c"
  by (auto simp: no_finish_def)

lemma no_finish_same_log: "same_log w w' \<Longrightarrow> no_finish w w'"
  by (simp add: no_finish_def same_log_def)

lemma no_finish_invoke: "n \<noteq> OnFinish \<Longrightarrow> no_finish w (invoke w t n as)"
  by (simp add: no_finish_def invoke_def)

lemma no_finish_then_handler: "no_finish w (snd (then_handler w t opts r))"
  by (simp add: then_handler_def no_finish_invoke split: sum.splits option.splits)

lemma no_finish_report_error: "no_finish w (snd (report_error w t opts e))"
  by (simp add: report_error_def no_finish_invoke split: option.splits)

lemma no_finish_setErrorD: "setError w t k m = (r, w') \<Longrightarrow> no_finish w w'"
  using quiet_setError[of w t k m] by (simp add: no_finish_same_log)

lemma no_finish_validation_branch: "no_finish w (snd (validation_branch w t opts r))"
  by (auto simp: validation_branch_def Let_def
        intro: no_finish_trans[OF _ no_finish_invoke] dest: no_finish_setErrorD
        split: sum.splits option.splits prod.splits)

lemma no_finish_catch_handler: "no_finish w (snd (catch_handler w t opts e))"
  by (simp add: catch_handler_def no_finish_report_error no_finish_validation_branch
      split: sum.splits)

lemma no_finish_branch: "no_finish w (snd (branch w t opts r))"
proof (cases r)
  case (Fulfilled v)
  obtain p w1 where th: "then_handler w t opts v = (p, w1)" by (cases "then_handler w t opts v")
  with no_finish_then_handler[of w t opts v] have 1: "no_finish w w1" by simp
  show ?thesis
  proof (cases p)
    case (Fulfilled x)
    then show ?thesis using th 1 \<open>r = Fulfilled v\<close> by (simp add: branch_def)
  next
    case (Rejected e)
    with no_finish_catch_handler[of w1 t opts e] 1 th \<open>r = Fulfilled v\<close>
    show ?thesis by (auto simp: branch_def intro: no_finish_trans)
  qed
next
  case (Rejected e)
  then show ?thesis by (simp add: branch_def no_finish_catch_handler)
qed

lemma invoke_effect:
  "objs (invoke w t n as) = objs w" "forms (invoke w t n as) = forms w"
  "calls (invoke w t n as)
     = calls w @ [\<lparr>callee = n, args = as, on_form = t,
                   processing_then = processing (forms w t), errors_then = errors_of w t\<rparr>]"
  by (simp_all add: invoke_def)

lemma finally_handler_effect:
  "processing (forms (snd (finally_handler w t opts)) t) = False"
  "objs (snd (finally_handler w t opts)) = objs w"
  "errors (forms (snd (finally_handler w t opts)) t) = errors (forms w t)"
  "calls (snd (finally_handler w t opts))
     = calls w @ (case onFinish opts of None \<Rightarrow> []
                  | Some cb \<Rightarrow> [\<lparr>callee = OnFinish, args = [], on_form = t,
                                 processing_then = False, errors_then = errors_of w t\<rparr>])"
  by (simp_all add: finally_handler_def Let_def invoke_def upd_form_def split: option.splits)

lemma report_error_snd:
  "snd (report_error w t opts e)
     = (case onError opts of None \<Rightarrow> w | Some cb \<Rightarrow> invoke w t OnError [e])"
  by (simp add: report_error_def split: option.splits)


lemma validation_branch_errors:
  assumes "get_prop w response ''data'' = Inr body" "truthy body"
    and "get_prop w body ''errors'' = Inr errs" "truthy errs"
    and "setError w t errs Undefined = (Inr r, w1)"
  shows "snd (validation_branch w t opts response)
     = (case onValidationErrors opts of None \<Rightarrow> w1
        | Some cb \<Rightarrow> invoke w1 t OnValidationErrors [Ref (errors (forms w1 t))])"
  using assms by (auto simp: validation_branch_def Let_def split: option.splits)

lemma catch_handler_snd:
  assumes "get_prop w error ''response'' = Inr response"
  shows "snd (catch_handler w t opts error)
     = (if truthy response \<and> get_prop w response ''status'' = Inr (Num 422)
        then snd (validation_branch w t opts response)
        else snd (report_error w t opts error))"
proof (cases "truthy response")
  case True
  from truthy_get_prop[OF this, of w "''status''"] obtain st
    where "get_prop w response ''status'' = Inr st" by blast
  then show ?thesis using assms True by (simp add: catch_handler_def)
next
  case False
  then show ?thesis using assms by (simp add: catch_handler_def)
qed

lemma settle_shape:
  assumes "map_of (pending w) rid = Some (this, opts)"
  shows "\<exists>u. settle w rid result
      = (snd (finally_handler
               (snd (branch (w\<lparr>pending := AList.delete rid (pending w)\<rparr>) this opts result))
               this opts))\<lparr>unhandled := u\<rparr>"
proof -
  let ?w0 = "w\<lparr>pending := AList.delete rid (pending w)\<rparr>"
  obtain p3 w2 where b: "branch ?w0 this opts result = (p3, w2)"
    by (cases "branch ?w0 this opts result")
  obtain th w3 where f: "finally_handler w2 this opts = (th, w3)"
    by (cases "finally_handler w2 this opts")
  have "settle w rid result = w3\<lparr>unhandled := unhandled w3\<rparr>
      \<or> (\<exists>e. settle w rid result = w3\<lparr>unhandled := unhandled w3 @ [e]\<rparr>)"
    using assms b f by (auto simp: settle_def Let_def split: option.splits outcome.splits)
  then have "\<exists>u. settle w rid result = w3\<lparr>unhandled := u\<rparr>" by blast
  then show ?thesis using b f by simp
qed


section \<open>What every operation preserves\<close>

lemma wf_worldI:
  "(\<And>t. priv_initialData (forms w t) < next_addr w \<and> priv_fields (forms w t) < next_addr w
          \<and> errors (forms w t) < next_addr w) \<Longrightarrow> wf_world w"
  by (simp add: wf_world_def)

lemma wf_ptr [simp]:
  assumes "wf_world w"
  shows "priv_initialData (forms w t) < next_addr w" "priv_fields (forms w t) < next_addr w"
    "errors (forms w t) < next_addr w"
    "priv_initialData (forms w t) \<noteq> next_addr w" "priv_fields (forms w t) \<noteq> next_addr w"
    "errors (forms w t) \<noteq> next_addr w"
    "next_addr w \<noteq> priv_initialData (forms w t)" "next_addr w \<noteq> priv_fields (forms w t)"
    "next_addr w \<noteq> errors (forms w t)"
  using assms[unfolded wf_world_def, rule_format, of t] by auto

lemma wf_ptr_far:
  assumes "wf_world w" "next_addr w \<le> a"
  shows "priv_initialData (forms w t) \<noteq> a" "priv_fields (forms w t) \<noteq> a"
    "errors (forms w t) \<noteq> a"
  using assms(1)[unfolded wf_world_def, rule_format, of t] assms(2) by auto

lemma wf_init_world: "wf_world init_world"
  by (simp add: wf_world_def init_world_def)

lemma keeps_clearErrors: "keeps this a0 init K w \<Longrightarrow> keeps this a0 init K (snd (clearErrors w t))"
  by (auto intro!: wf_worldI simp: keeps_def clearErrors_def alloc_def upd_form_def less_Suc_eq)

lemma keeps_setError_key: "keeps this a0 init K w \<Longrightarrow> keeps this a0 init K (setError_key w t k m)"
  by (auto intro!: wf_worldI simp: keeps_def setError_key_def alloc_def upd_form_def less_Suc_eq)

lemma keeps_setError_each:
  "keeps this a0 init K w \<Longrightarrow> keeps this a0 init K (snd (setError_each w t ps))"
  by (induction ps arbitrary: w) (auto simp: keeps_setError_key split: sum.splits)

lemma keeps_setError: "keeps this a0 init K w \<Longrightarrow> keeps this a0 init K (snd (setError w t k m))"
  using keeps_setError_each[of this a0 init K w t "for_in w k"]
  by (auto simp: setError_def keeps_setError_key split: prod.splits option.splits)

lemma keeps_accessor_set: "keeps this a0 init K w \<Longrightarrow> keeps this a0 init K (accessor_set w t k v)"
  by (auto intro!: wf_worldI simp: keeps_def accessor_set_def upd_obj_def Let_def)

lemma keeps_set_property: "keeps this a0 init K w \<Longrightarrow> keeps this a0 init K (set_property w t k v)"
  by (auto intro!: wf_worldI simp: set_property_def keeps_accessor_set)
     (auto intro!: wf_worldI simp: keeps_def upd_form_def)

lemma keeps_assign:
  "keeps this a0 init K w \<Longrightarrow> keeps this a0 init K (assign_prop w (fields_get w t) k v)"
  by (auto intro!: wf_worldI simp: keeps_def assign_prop_def fields_get_def upd_obj_def)

lemma keeps_request: "keeps this a0 init K w \<Longrightarrow> keeps this a0 init K (request w t m u d opts)"
  by (auto intro!: wf_worldI simp: keeps_def request_def clearErrors_def alloc_def upd_form_def
        less_Suc_eq Let_def axios_create_def setAxiosInstance_def split: option.splits)

lemma keeps_invoke: "keeps this a0 init K w \<Longrightarrow> keeps this a0 init K (invoke w t n as)"
  by (auto intro!: wf_worldI simp: keeps_def invoke_def)

lemma keeps_then_handler:
  "keeps this a0 init K w \<Longrightarrow> keeps this a0 init K (snd (then_handler w t opts r))"
  by (auto simp: then_handler_def keeps_invoke split: sum.splits option.splits)

lemma keeps_report_error:
  "keeps this a0 init K w \<Longrightarrow> keeps this a0 init K (snd (report_error w t opts e))"
  by (auto simp: report_error_def keeps_invoke split: sum.splits option.splits)

lemma keeps_setErrorD:
  "setError w t k m = (r, w') \<Longrightarrow> keeps this a0 init K w \<Longrightarrow> keeps this a0 init K w'"
  by (metis keeps_setError snd_conv)

lemma keeps_validation_branch:
  "keeps this a0 init K w \<Longrightarrow> keeps this a0 init K (snd (validation_branch w t opts r))"
  by (auto simp: validation_branch_def keeps_invoke Let_def dest: keeps_setErrorD
        split: sum.splits option.splits prod.splits if_splits)

lemma keeps_catch_handler:
  "keeps this a0 init K w \<Longrightarrow> keeps this a0 init K (snd (catch_handler w t opts e))"
  by (auto simp: catch_handler_def keeps_report_error keeps_validation_branch split: sum.splits)

lemma keeps_processing:
  "keeps this a0 init K w \<Longrightarrow> keeps this a0 init K (upd_form t (\<lambda>f. f\<lparr>processing := b\<rparr>) w)"
  by (auto intro!: wf_worldI simp: keeps_def upd_form_def)

lemma keeps_finally_handler:
  "keeps this a0 init K w \<Longrightarrow> keeps this a0 init K (snd (finally_handler w t opts))"
  by (auto simp: finally_handler_def Let_def keeps_invoke keeps_processing split: option.splits)

lemma keeps_then_handlerD:
  "then_handler w t opts r = (p, w') \<Longrightarrow> keeps this a0 init K w \<Longrightarrow> keeps this a0 init K w'"
  by (metis keeps_then_handler snd_conv)

lemma keeps_branch:
  "keeps this a0 init K w \<Longrightarrow> keeps this a0 init K (snd (branch w t opts r))"
  by (auto simp: branch_def keeps_catch_handler dest: keeps_then_handlerD
        split: outcome.splits prod.splits)

lemma keeps_pending: "keeps this a0 init K w \<Longrightarrow> keeps this a0 init K (w\<lparr>pending := p\<rparr>)"
  by (auto intro!: wf_worldI simp: keeps_def)

lemma keeps_unhandled: "keeps this a0 init K w \<Longrightarrow> keeps this a0 init K (w\<lparr>unhandled := p\<rparr>)"
  by (auto intro!: wf_worldI simp: keeps_def)

lemma keeps_settle: "keeps this a0 init K w \<Longrightarrow> keeps this a0 init K (settle w rid r)"
proof -
  assume k: "keeps this a0 init K w"
  show ?thesis
  proof (cases "map_of (pending w) rid")
    case None
    then show ?thesis using k by (simp add: settle_def)
  next
    case (Some p)
    obtain t opts where p: "p = (t, opts)" by (cases p)
    let ?w0 = "w\<lparr>pending := AList.delete rid (pending w)\<rparr>"
    have "keeps this a0 init K (snd (branch ?w0 t opts r))"
      by (intro keeps_branch keeps_pending k)
    then have "keeps this a0 init K (snd (finally_handler (snd (branch ?w0 t opts r)) t opts))"
      by (rule keeps_finally_handler)
    then show ?thesis using Some p
      by (auto simp: settle_def Let_def keeps_unhandled split: prod.splits option.splits outcome.splits)
  qed
qed

lemma keeps_reassign: "keeps this a0 init K w \<Longrightarrow> keeps this a0 init K (reassign w t ks)"
  by (induction ks arbitrary: w) (auto simp: keeps_set_property)

lemma keeps_reset: "keeps this a0 init K w \<Longrightarrow> keeps this a0 init K (snd (reset w t))"
proof -
  assume k: "keeps this a0 init K w"
  have "keeps this a0 init K (upd_form t (\<lambda>f. f\<lparr>priv_fields := next_addr w\<rparr>)
          (snd (alloc (object_assign [] (objs w (priv_initialData (forms w t)))) w)))"
    using k by (auto intro!: wf_worldI simp: keeps_def alloc_def upd_form_def less_Suc_eq)
  then show ?thesis
    by (auto simp: reset_def Let_def alloc_def keeps_clearErrors keeps_reassign split: prod.splits)
qed

lemma keeps_upd_errors_obj:
  "keeps this a0 init K w \<Longrightarrow> keeps this a0 init K (upd_obj (errors (forms w t)) g w)"
  by (auto intro!: wf_worldI simp: keeps_def upd_obj_def)

lemma keeps_define_accessor:
  "keeps this a0 init K w \<Longrightarrow> keeps this a0 init K (define_accessor w t k)"
  by (auto intro!: wf_worldI simp: keeps_def define_accessor_def upd_form_def)

lemma keeps_define_accessor_this:
  "keeps this a0 init K w \<Longrightarrow> keeps this a0 init (insert k K) (define_accessor w this k)"
  by (auto intro!: wf_worldI simp: keeps_def define_accessor_def upd_form_def)

lemma keeps_expose: "keeps this a0 init K w \<Longrightarrow> keeps this a0 init K (expose w t ks)"
  by (induction ks arbitrary: w)
     (auto simp: Let_def keeps_set_property keeps_upd_errors_obj keeps_define_accessor)

lemma keeps_expose_this:
  "keeps this a0 init K w \<Longrightarrow> keeps this a0 init (K \<union> set ks) (expose w this ks)"
proof (induction ks arbitrary: w K)
  case Nil
  then show ?case by simp
next
  case (Cons k ks)
  let ?w1 = "set_property w this k (lookup (objs w (priv_fields (forms w this))) k)"
  let ?w2 = "upd_obj (errors (forms ?w1 this)) (AList.update k Null) ?w1"
  have "keeps this a0 init (insert k K) (define_accessor ?w2 this k)"
    by (intro keeps_define_accessor_this keeps_upd_errors_obj keeps_set_property Cons.prems)
  from Cons.IH[OF this] show ?case by (simp add: Let_def)
qed

lemma keeps_built:
  "keeps this a0 init K w \<Longrightarrow> keeps this a0 init K (built w init')"
  by (auto intro!: wf_worldI simp: keeps_def built_def less_Suc_eq wf_ptr_far)

lemma keeps_Form: "keeps this a0 init K w \<Longrightarrow> keeps this a0 init K (snd (Form w init'))"
  by (simp add: Form_built keeps_expose keeps_built)

lemma built_keeps:
  "wf_world w \<Longrightarrow>
   keeps (next_addr w) (Suc (Suc (Suc (Suc (next_addr w))))) (object_assign [] init) {}
     (built w init)"
  by (auto intro!: wf_worldI simp: keeps_def built_def less_Suc_eq wf_ptr_far)

lemma Form_keeps:
  assumes "wf_world w" "distinct (map fst init)"
  shows "keeps (fst (Form w init)) (Suc (Suc (Suc (Suc (next_addr w))))) init (fst ` set init)
           (snd (Form w init))"
  using keeps_expose_this[OF built_keeps[OF assms(1), of init], of "map fst init"] assms(2)
  by (simp add: Form_built object_assign_copy)

lemma keeps_http: "keeps this a0 init K w \<Longrightarrow> keeps this a0 init K (w\<lparr>http := c\<rparr>)"
  by (auto intro!: wf_worldI simp: keeps_def)

lemma keeps_exec: "keeps this a0 init K w \<Longrightarrow> keeps this a0 init K (exec w x)"
  by (cases x)
     (simp_all add: useForm_def keeps_Form keeps_set_property keeps_assign keeps_setError
        keeps_clearErrors keeps_reset post_def put_def patch_def delete_def keeps_request
        keeps_settle setFormAxios_def setAxiosInstance_def keeps_http)

lemma keeps_run: "keeps this a0 init K w \<Longrightarrow> keeps this a0 init K (run w xs)"
  unfolding run_def by (induction xs arbitrary: w) (simp_all add: keeps_exec)

section \<open>The processing flag outside a submission\<close>

lemma processing_set_property:
  "processing (forms (set_property w t k v) t') = processing (forms w t')"
  by (simp add: set_property_def accessor_set_def upd_obj_def upd_form_def Let_def)

lemma processing_assign_prop:
  "processing (forms (assign_prop w r k v) t') = processing (forms w t')"
  by (cases r) (simp_all add: assign_prop_def upd_obj_def)

lemma processing_clearErrors:
  "processing (forms (snd (clearErrors w t)) t') = processing (forms w t')"
  by (simp add: clearErrors_def alloc_def upd_form_def)

lemma processing_reassign:
  "processing (forms (reassign w t ks) t') = processing (forms w t')"
  by (induction ks arbitrary: w) (simp_all add: processing_set_property)

lemma processing_reset:
  "processing (forms (snd (reset w t)) t') = processing (forms w t')"
  by (simp add: reset_def Let_def alloc_def processing_clearErrors processing_reassign
      split: prod.splits)
     (simp add: upd_form_def)

lemma processing_expose:
  "processing (forms (expose w t ks) t') = processing (forms w t')"
  by (induction ks arbitrary: w)
     (simp_all add: Let_def define_accessor_def upd_form_def upd_obj_def set_property_def
        accessor_set_def)

lemma processing_useForm:
  "t' \<noteq> next_addr w \<Longrightarrow>
   processing (forms (snd (useForm w init)) t') = processing (forms w t')"
  by (simp add: useForm_def Form_built processing_expose) (simp add: built_def)

lemma processing_request:
  "t' \<noteq> t \<Longrightarrow> processing (forms (request w t m u d opts) t') = processing (forms w t')"
  by (auto simp: request_def clearErrors_def alloc_def upd_form_def Let_def axios_create_def
      setAxiosInstance_def split: option.splits)

lemma processing_branch:
  "processing (forms (snd (branch w t opts r)) t') = processing (forms w t')"
proof -
  have th: "processing (forms (snd (then_handler w t opts v)) t') = processing (forms w t')"
    for w v
    by (simp add: then_handler_def invoke_def split: sum.splits option.splits)
  have re: "processing (forms (snd (report_error w t opts e)) t') = processing (forms w t')"
    for w e
    by (simp add: report_error_snd invoke_def split: option.splits)
  have va: "processing (forms (snd (validation_branch w t opts v)) t') = processing (forms w t')"
    for w v
    using processing_setError[of w t _ Undefined t']
    by (auto simp: validation_branch_def Let_def invoke_def
        split: sum.splits option.splits prod.splits)
       (metis snd_conv)+
  have ca: "processing (forms (snd (catch_handler w t opts e)) t') = processing (forms w t')"
    for w e
    by (simp add: catch_handler_def re va split: sum.splits)
  show ?thesis
  proof (cases r)
    case (Fulfilled v)
    obtain p w1 where h: "then_handler w t opts v = (p, w1)"
      by (cases "then_handler w t opts v")
    with th[of w v] have 1: "processing (forms w1 t') = processing (forms w t')" by simp
    show ?thesis using Fulfilled h 1 ca[of w1] by (cases p) (simp_all add: branch_def)
  next
    case (Rejected e)
    then show ?thesis by (simp add: branch_def ca)
  qed
qed

lemma processing_settle:
  "processing (forms (settle w rid r) t') \<Longrightarrow> processing (forms w t')"
proof (cases "map_of (pending w) rid")
  case None
  then show "processing (forms (settle w rid r) t') \<Longrightarrow> processing (forms w t')"
    by (simp add: settle_def)
next
  case (Some p)
  obtain t opts where p: "p = (t, opts)" by (cases p)
  let ?w0 = "w\<lparr>pending := AList.delete rid (pending w)\<rparr>"
  let ?w2 = "snd (branch ?w0 t opts r)"
  from settle_shape[of w rid t opts r] Some p obtain u
    where s: "settle w rid r = (snd (finally_handler ?w2 t opts))\<lparr>unhandled := u\<rparr>"
    by auto
  have f: "processing (forms (snd (finally_handler ?w2 t opts)) t')
      = (if t' = t then False else processing (forms ?w2 t'))"
    by (simp add: finally_handler_def Let_def invoke_def upd_form_def split: option.splits)
  show "processing (forms (settle w rid r) t') \<Longrightarrow> processing (forms w t')"
    using processing_branch[of ?w0 t opts r t'] by (simp add: s f split: if_splits)
qed

lemma processing_exec:
  assumes "this < next_addr w" "\<not> submits this x" "\<not> processing (forms w this)"
  shows "\<not> processing (forms (exec w x) this)"
proof (cases x)
  case (Settle rid r)
  then show ?thesis using assms(3) processing_settle[of w rid r this] by auto
qed (use assms in \<open>simp_all add: processing_useForm processing_set_property
      processing_assign_prop processing_setError processing_clearErrors processing_reset
      post_def put_def patch_def delete_def processing_request setFormAxios_def
      setAxiosInstance_def\<close>)

lemma processing_run:
  assumes "keeps this a0 init K w" "\<not> list_ex (submits this) ops"
    "\<not> processing (forms w this)"
  shows "\<not> processing (forms (run w ops) this)"
  using assms
proof (induction ops arbitrary: w)
  case Nil
  then show ?case by (simp add: run_def)
next
  case (Cons x ops)
  from Cons.prems have x: "\<not> submits this x" and r: "\<not> list_ex (submits this) ops"
    by simp_all
  from Cons.prems(1) have lt: "this < next_addr w" by (simp add: keeps_def)
  have k: "keeps this a0 init K (exec w x)" using Cons.prems(1) by (rule keeps_exec)
  have "run w (x # ops) = run (exec w x) ops" by (simp add: run_def)
  with Cons.IH[OF k r processing_exec[OF lt x Cons.prems(3)]] show ?case by simp
qed

section \<open>The error mapping after setError\<close>

lemma errors_of_setError_key:
  "errors_of (setError_key w t k m) t = AList.update k m (object_assign [] (errors_of w t))"
  by (simp add: setError_key_def alloc_def upd_form_def object_assign_def)

lemma distinct_errors_setError_key: "distinct (map fst (errors_of (setError_key w t k m) t))"
  by (simp add: errors_of_setError_key distinct_update distinct_object_assign)

lemma hasErrors_setError_key: "hasErrors (setError_key w t k m) t"
  by (simp add: hasErrors_def errors_of_setError_key)

lemma map_of_setError_key: "map_of (errors_of (setError_key w t k m) t) k = Some m"
  by (simp add: errors_of_setError_key update_conv')

text \<open>The loop over an object of arrays, from a distinct error object.\<close>

lemma setError_each_arrays:
  assumes "list_all is_array (map snd ps)" "distinct (map fst (errors_of w t))"
  shows "fst (setError_each w t ps) = None
    \<and> errors_of (snd (setError_each w t ps)) t
        = fold (\<lambda>(k, v). AList.update k (head_of v)) ps (errors_of w t)"
  using assms
proof (induction ps arbitrary: w)
  case Nil
  then show ?case by simp
next
  case (Cons p ps)
  obtain k v where p: "p = (k, v)" by (cases p)
  with Cons.prems have v: "is_array v" by simp
  let ?w1 = "setError_key w t k (head_of v)"
  have e1: "errors_of ?w1 t = AList.update k (head_of v) (errors_of w t)"
    using Cons.prems(2) by (simp add: errors_of_setError_key object_assign_copy)
  have "fst (setError_each ?w1 t ps) = None
    \<and> errors_of (snd (setError_each ?w1 t ps)) t
        = fold (\<lambda>(k, v). AList.update k (head_of v)) ps (errors_of ?w1 t)"
    using Cons.prems by (intro Cons.IH) (simp_all add: distinct_errors_setError_key)
  then show ?case using p v e1 by (simp add: index0_array)
qed

lemma setError_each_arrays_any:
  assumes "list_all is_array (map snd ps)" "ps \<noteq> []"
  shows "fst (setError_each w t ps) = None
    \<and> errors_of (snd (setError_each w t ps)) t
        = fold (\<lambda>(k, v). AList.update k (head_of v)) ps (object_assign [] (errors_of w t))"
proof -
  from assms(2) obtain k v rest where ps: "ps = (k, v) # rest" by (cases ps) auto
  with assms(1) have v: "is_array v" and r: "list_all is_array (map snd rest)" by simp_all
  let ?w1 = "setError_key w t k (head_of v)"
  from setError_each_arrays[OF r distinct_errors_setError_key[of w t k "head_of v"]]
  show ?thesis using ps v by (simp add: index0_array errors_of_setError_key)
qed

lemma setError_bulk:
  assumes "list_all is_array (map snd ps)" "distinct (map fst ps)"
  shows "fst (setError w t (Obj ps) m) = Inr t"
    and "\<forall>(f, v) \<in> set ps.
           map_of (errors_of (snd (setError w t (Obj ps) m)) t) f = Some (head_of v)"
proof -
  have "fst (setError w t (Obj ps) m) = Inr t
      \<and> (\<forall>(f, v) \<in> set ps.
           map_of (errors_of (snd (setError w t (Obj ps) m)) t) f = Some (head_of v))"
  proof (cases "ps = []")
    case True
    then show ?thesis by (simp add: setError_def)
  next
    case False
    note each = setError_each_arrays_any[OF assms(1) False, of w t]
    obtain r w' where rw: "setError_each w t ps = (r, w')" by (cases "setError_each w t ps")
    with each have r: "r = None"
      and e: "errors_of w' t
          = fold (\<lambda>(k, v). AList.update k (head_of v)) ps (object_assign [] (errors_of w t))"
      by simp_all
    have "map_of (errors_of w' t) f = Some (head_of v)" if "(f, v) \<in> set ps" for f v
      unfolding e by (rule map_of_fold_update[OF assms(2) that])
    then show ?thesis using rw r by (auto simp: setError_def)
  qed
  then show "fst (setError w t (Obj ps) m) = Inr t"
    and "\<forall>(f, v) \<in> set ps.
           map_of (errors_of (snd (setError w t (Obj ps) m)) t) f = Some (head_of v)"
    by blast+
qed

section \<open>The concrete scenarios, evaluated\<close>

lemma contact_world_form:
  "forms contact_world (Suc 0) =
     \<lparr>priv_initialData = 5, priv_fields = 6, errors = 4, processing = False,
      accessors = [''email'', ''name''], props = []\<rparr>"
  by (simp add: contact_world_def contact_fields_def useForm_def Form_built built_def
      init_world_def object_assign_def set_property_def upd_form_def upd_obj_def
      define_accessor_def lookup_def)

lemma contact_world_objs:
  "objs contact_world 4 = [(''name'', Null), (''email'', Null)]"
  "objs contact_world 5 = contact_fields"
  "objs contact_world 6 = contact_fields"
  by (simp_all add: contact_world_def contact_fields_def useForm_def Form_built built_def
      init_world_def object_assign_def set_property_def upd_form_def upd_obj_def
      define_accessor_def lookup_def)

lemma contact_world_io:
  "http contact_world = None" "sent contact_world = []" "pending contact_world = []"
  "created contact_world = 0" "calls contact_world = []"
  using quiet_useForm[of init_world contact_fields]
  by (simp_all add: contact_world_def same_io_def same_log_def init_world_def)


lemma wf_contact_world: "wf_world contact_world"
proof -
  have "distinct (map fst contact_fields)" by (simp add: contact_fields_def)
  from Form_keeps[OF wf_init_world this] show ?thesis
    by (simp add: keeps_def contact_world_def useForm_def)
qed

lemma submitted_world_pending: "map_of (pending submitted_world) 0 = Some (1, observers)"
  by (simp add: submitted_world_def post_def request_io contact_world_io)

lemma request_members:
  "accessors (forms (request w t m u d opts) t') = accessors (forms w t')"
  "props (forms (request w t m u d opts) t') = props (forms w t')"
  by (auto simp: request_def clearErrors_def alloc_def upd_form_def Let_def axios_create_def
      setAxiosInstance_def split: option.splits)

lemma unshadowed_contact_world: "unshadowed contact_world (Suc 0)"
  by (simp add: unshadowed_def contact_world_form member_names_def)

lemma unshadowed_submitted_world: "unshadowed submitted_world (Suc 0)"
  by (simp add: unshadowed_def submitted_world_def post_def request_members
      contact_world_form member_names_def)



section \<open>hasErrors on a new form\<close>

text \<open>
  C1. The claim is that \<open>hasErrors\<close> is false on a freshly constructed form. The
  constructor stores \<open>null\<close> under every field name in \<open>errors\<close>, and \<open>hasErrors\<close>
  counts the names: on the form made from \<open>{name: ""}\<close> it is true, although the form
  has no validation error, which is what the README says \<open>hasErrors\<close> indicates. After
  \<open>reset()\<close> the same form, with the same field values, has \<open>hasErrors\<close> false.
\<close>

theorem fresh_form_has_errors:
  "hasErrors (snd (useForm init_world [(''name'', Str [])]))
     (fst (useForm init_world [(''name'', Str [])]))
   \<and> errors_of (snd (useForm init_world [(''name'', Str [])]))
        (fst (useForm init_world [(''name'', Str [])])) = [(''name'', Null)]
   \<and> \<not> hasErrors (snd (reset (snd (useForm init_world [(''name'', Str [])]))
                       (fst (useForm init_world [(''name'', Str [])]))))
         (fst (useForm init_world [(''name'', Str [])]))"
proof -
  have "errors_of (snd (useForm init_world [(''name'', Str [])]))
        (fst (useForm init_world [(''name'', Str [])])) = [(''name'', Null)]"
    by (simp add: useForm_def Form_built built_def init_world_def object_assign_def
        set_property_def upd_form_def upd_obj_def define_accessor_def lookup_def)
  moreover have "\<not> hasErrors (snd (reset (snd (useForm init_world [(''name'', Str [])]))
                       (fst (useForm init_world [(''name'', Str [])]))))
         (fst (useForm init_world [(''name'', Str [])]))"
    by (simp add: hasErrors_def reset_def clearErrors_def alloc_def upd_form_def Let_def
        split: prod.splits)
  ultimately show ?thesis by (simp add: hasErrors_def)
qed

text \<open>
  The same for every non-empty field mapping and every world; and the two parts of the
  claim that hold: after \<open>reset()\<close> \<open>hasErrors\<close> is false, after \<open>setError\<close> with a name
  it is true.
\<close>

lemma expose_leaves_errors:
  "ks \<noteq> [] \<Longrightarrow> errors_of (expose w t ks) t \<noteq> []"
proof (induction ks arbitrary: w)
  case Nil
  then show ?case by simp
next
  case (Cons k ks)
  show ?case
  proof (cases ks)
    case Nil
    then show ?thesis
      by (simp add: Let_def define_accessor_def upd_form_def upd_obj_def)
  next
    case (Cons k' ks')
    then show ?thesis using Cons.IH by (simp add: Let_def)
  qed
qed

lemma new_form_counts_null_entries:
  "init \<noteq> [] \<Longrightarrow> hasErrors (snd (useForm w init)) (fst (useForm w init))"
proof -
  assume "init \<noteq> []"
  then have "fst ` set (object_assign [] init) \<noteq> {}" by (simp add: object_assign_keys)
  then have "map fst (object_assign [] init) \<noteq> []" by auto
  then show ?thesis
    by (simp add: hasErrors_def useForm_def Form_built expose_leaves_errors)
qed

lemma reset_clears_errors: "\<not> hasErrors (snd (reset w this)) this"
  by (simp add: hasErrors_def reset_def clearErrors_def alloc_def upd_form_def Let_def
      split: prod.splits)

section \<open>Failed requests\<close>




section \<open>onFinish\<close>

text \<open>
  C3. When the promise of a submission settles, whatever the outcome and whichever
  callbacks were supplied: the calls of the success/error branch come first and none of
  them is \<open>onFinish\<close>; then \<open>processing\<close> is false and \<open>onFinish\<close>, if supplied, is
  called once, without arguments, seeing \<open>processing\<close> false. The submission is no longer
  pending, so its handlers cannot run again. A form made by \<open>useForm\<close> is not processing,
  and stays so through every sequence of operations that does not submit it. The form
  has no field or property named like a member of the class.
\<close>

theorem finish_runs_once:
  assumes "map_of (pending w) rid = Some (this, opts)" and "unshadowed w this"
    and "wf_world w0" and "declarable init" and "\<forall>x \<in> set ops. plain x"
    and "\<not> list_ex (submits (fst (useForm w0 init))) ops"
  shows "processing (forms (settle w rid result) this) = False
    \<and> (\<exists>cs. calls (settle w rid result)
          = calls w @ cs @
            (case onFinish opts of None \<Rightarrow> []
             | Some cb \<Rightarrow> [\<lparr>callee = OnFinish, args = [], on_form = this,
                            processing_then = False,
                            errors_then = errors_of (settle w rid result) this\<rparr>])
        \<and> OnFinish \<notin> callee ` set cs)
    \<and> map_of (pending (settle w rid result)) rid = None
    \<and> settle (settle w rid result) rid result' = settle w rid result
    \<and> processing (forms (run (snd (useForm w0 init)) ops) (fst (useForm w0 init))) = False"
proof -
  let ?w0 = "w\<lparr>pending := AList.delete rid (pending w)\<rparr>"
  let ?w2 = "snd (branch ?w0 this opts result)"
  let ?w3 = "snd (finally_handler ?w2 this opts)"
  from assms(4) have d: "distinct (map fst init)" by (simp add: declarable_def)
  have idle: "processing (forms (run (snd (useForm w0 init)) ops) (fst (useForm w0 init)))
      = False"
    using processing_run[OF _ assms(6), of "Suc (Suc (Suc (Suc (next_addr w0))))" init
        "fst ` set init" "snd (useForm w0 init)"]
      Form_keeps[OF assms(3) d] useForm_not_processing[of w0 init]
    by (simp add: useForm_def)
  from settle_shape[OF assms(1), of result] obtain u
    where s: "settle w rid result = ?w3\<lparr>unhandled := u\<rparr>" by blast
  from no_finish_branch[of ?w0 this opts result] obtain cs
    where cs: "calls ?w2 = calls w @ cs" "OnFinish \<notin> callee ` set cs"
    by (auto simp: no_finish_def)
  have p: "pending ?w3 = AList.delete rid (pending w)"
    using io_branch[of ?w0 this opts result] io_finally_handler[of ?w2 this opts]
    by (simp add: same_io_def)
  then have none: "map_of (pending (settle w rid result)) rid = None"
    by (simp add: s delete_conv')
  have "calls (settle w rid result)
      = calls w @ cs @
        (case onFinish opts of None \<Rightarrow> []
         | Some cb \<Rightarrow> [\<lparr>callee = OnFinish, args = [], on_form = this,
                        processing_then = False,
                        errors_then = errors_of (settle w rid result) this\<rparr>])"
    by (simp add: s finally_handler_effect cs cong: option.case_cong)
  moreover have "processing (forms (settle w rid result) this) = False"
    by (simp add: s finally_handler_effect)
  moreover have "settle (settle w rid result) rid result' = settle w rid result"
    using none by (simp add: settle_def[of "settle w rid result"])
  ultimately show ?thesis using cs(2) none idle by blast
qed

theorem finish_runs_once_witness:
  "map_of (pending submitted_world) 0 = Some (1, observers)
   \<and> unshadowed submitted_world 1
   \<and> wf_world init_world \<and> declarable contact_fields \<and> list_all plain editing
   \<and> \<not> list_ex (submits 1) editing
   \<and> processing (forms submitted_world 1) = True
   \<and> processing (forms (settle submitted_world 0 (Rejected network_error)) 1) = False
   \<and> map_of (pending (settle submitted_world 0 (Rejected network_error))) 0 = None
   \<and> processing (forms (run contact_world editing) 1) = False"
proof -
  have 1: "unshadowed submitted_world 1" using unshadowed_submitted_world by simp
  have 2: "declarable contact_fields"
    by (simp add: declarable_def contact_fields_def member_names_def)
  have 3: "\<forall>x \<in> set editing. plain x"
    by (simp add: editing_def declarable_def member_names_def)
  have f: "fst (useForm init_world contact_fields) = 1"
    by (simp add: fst_useForm init_world_def)
  have 4: "\<not> list_ex (submits (fst (useForm init_world contact_fields))) editing"
    unfolding f by (simp add: editing_def)
  from finish_runs_once[OF submitted_world_pending 1 wf_init_world 2 3 4,
      of "Rejected network_error"]
  have "processing (forms (settle submitted_world 0 (Rejected network_error)) 1) = False"
    and "map_of (pending (settle submitted_world 0 (Rejected network_error))) 0 = None"
    and "processing (forms (run contact_world editing) 1) = False"
    by (simp_all add: f contact_world_def)
  moreover have "processing (forms submitted_world 1) = True"
    by (simp add: submitted_world_def post_def request_processing)
  moreover have "\<not> list_ex (submits 1) editing" by (simp add: editing_def)
  ultimately show ?thesis
    using submitted_world_pending 1 wf_init_world 2 3 by (simp add: list_all_iff)
qed

section \<open>Validation failures\<close>

text \<open>
  C4. A submission is rejected with status 422 and a body whose \<open>errors\<close> field maps field
  names to non-empty lists of strings. Then every listed field has the first message of
  its list as its error entry, and after that \<open>onValidationErrors\<close>, if supplied, is called
  with the form's error mapping, which holds these entries; \<open>onFinish\<close> follows. The form
  has no field or property named like a member of the class, and \<open>__proto__\<close> is not among
  the listed names.
\<close>

theorem validation_errors_populated:
  assumes "map_of (pending w) rid = Some (this, opts)"
    and "get_prop w error ''response'' = Inr response"
    and "get_prop w response ''status'' = Inr (Num 422)"
    and "get_prop w response ''data'' = Inr body"
    and "get_prop w body ''errors'' = Inr (Obj ps)"
    and "distinct (map fst ps)" and "list_all message_list (map snd ps)"
    and "''__proto__'' \<notin> fst ` set ps" and "unshadowed w this"
  shows "(\<forall>(f, v) \<in> set ps.
            map_of (errors_of (settle w rid (Rejected error)) this) f = Some (head_of v))
    \<and> calls (settle w rid (Rejected error))
        = calls w
          @ (case onValidationErrors opts of None \<Rightarrow> []
             | Some cb \<Rightarrow>
                 [\<lparr>callee = OnValidationErrors,
                   args = [Ref (errors (forms (settle w rid (Rejected error)) this))],
                   on_form = this, processing_then = processing (forms w this),
                   errors_then = errors_of (settle w rid (Rejected error)) this\<rparr>])
          @ (case onFinish opts of None \<Rightarrow> []
             | Some cb \<Rightarrow>
                 [\<lparr>callee = OnFinish, args = [], on_form = this, processing_then = False,
                   errors_then = errors_of (settle w rid (Rejected error)) this\<rparr>])"
proof -
  let ?w0 = "w\<lparr>pending := AList.delete rid (pending w)\<rparr>"
  let ?w1 = "snd (setError ?w0 this (Obj ps) Undefined)"
  let ?w2 = "snd (branch ?w0 this opts (Rejected error))"
  have g: "get_prop ?w0 v k = get_prop w v k" for v k
    by (rule get_prop_objs) simp
  have tr: "truthy response" using assms(3) by (cases response) (simp_all add: lookup_def)
  have tb: "truthy body" using assms(5) by (cases body) simp_all
  note arr = message_lists_arrays[OF assms(7)]
  note bulk = setError_bulk[OF arr assms(6), of ?w0 this Undefined]
  have se: "setError ?w0 this (Obj ps) Undefined = (Inr this, ?w1)"
    using bulk(1) by (simp add: prod_eq_iff)
  have "?w2 = snd (validation_branch ?w0 this opts response)"
    using catch_handler_snd[of ?w0 error response this opts] assms(2,3) tr
    by (simp add: branch_def g)
  also have "\<dots> = (case onValidationErrors opts of None \<Rightarrow> ?w1
        | Some cb \<Rightarrow> invoke ?w1 this OnValidationErrors [Ref (errors (forms ?w1 this))])"
    using assms(4,5) tb se
    by (intro validation_branch_errors[where body = body and errs = "Obj ps"])
       (simp_all add: g)
  finally have w2: "?w2 = (case onValidationErrors opts of None \<Rightarrow> ?w1
        | Some cb \<Rightarrow> invoke ?w1 this OnValidationErrors [Ref (errors (forms ?w1 this))])" .
  have q: "calls ?w1 = calls w" "processing (forms ?w1 this) = processing (forms w this)"
    using quiet_setError[of ?w0 this "Obj ps" Undefined]
    by (simp_all add: same_log_def processing_setError)
  have o: "objs ?w2 = objs ?w1" and f: "forms ?w2 = forms ?w1"
    by (simp_all add: w2 invoke_effect split: option.splits)
  have cl: "calls ?w2
      = calls w
        @ (case onValidationErrors opts of None \<Rightarrow> []
           | Some cb \<Rightarrow>
               [\<lparr>callee = OnValidationErrors, args = [Ref (errors (forms ?w1 this))],
                 on_form = this, processing_then = processing (forms w this),
                 errors_then = errors_of ?w1 this\<rparr>])"
    by (simp add: w2 invoke_effect q split: option.splits)
  from settle_shape[OF assms(1), of "Rejected error"] obtain u
    where s: "settle w rid (Rejected error)
                = (snd (finally_handler ?w2 this opts))\<lparr>unhandled := u\<rparr>"
    by blast
  have e: "errors (forms (settle w rid (Rejected error)) this) = errors (forms ?w1 this)"
    by (simp add: s finally_handler_effect f)
  have eo: "errors_of (settle w rid (Rejected error)) this = errors_of ?w1 this"
    by (simp add: s finally_handler_effect f o)
  have A: "\<forall>(f, v) \<in> set ps.
            map_of (errors_of (settle w rid (Rejected error)) this) f = Some (head_of v)"
    unfolding eo by (rule bulk(2))
  have B: "calls (settle w rid (Rejected error))
        = calls w
          @ (case onValidationErrors opts of None \<Rightarrow> []
             | Some cb \<Rightarrow>
                 [\<lparr>callee = OnValidationErrors,
                   args = [Ref (errors (forms (settle w rid (Rejected error)) this))],
                   on_form = this, processing_then = processing (forms w this),
                   errors_then = errors_of (settle w rid (Rejected error)) this\<rparr>])
          @ (case onFinish opts of None \<Rightarrow> []
             | Some cb \<Rightarrow>
                 [\<lparr>callee = OnFinish, args = [], on_form = this, processing_then = False,
                   errors_then = errors_of (settle w rid (Rejected error)) this\<rparr>])"
    by (simp add: s finally_handler_effect f o cl cong: option.case_cong)
  from A B show ?thesis by (rule conjI)
qed

theorem validation_errors_populated_witness:
  "map_of (pending submitted_world) 0 = Some (1, observers)
   \<and> unshadowed submitted_world 1
   \<and> get_prop submitted_world invalid_email_422 ''response''
      = Inr (Obj [(''status'', Num 422),
                  (''data'',
                   Obj [(''errors'',
                         Obj [(''email'', Arr [Str ''The email field is required.'',
                                               Str ''The email must be valid.''])])])])
   \<and> map_of (errors_of (settle submitted_world 0 (Rejected invalid_email_422)) 1) ''email''
      = Some (Str ''The email field is required.'')
   \<and> map callee (calls (settle submitted_world 0 (Rejected invalid_email_422)))
      = [OnValidationErrors, OnFinish]
   \<and> map errors_then (calls (settle submitted_world 0 (Rejected invalid_email_422)))
      = [errors_of (settle submitted_world 0 (Rejected invalid_email_422)) 1,
         errors_of (settle submitted_world 0 (Rejected invalid_email_422)) 1]"
proof -
  let ?ps = "[(''email'', Arr [Str ''The email field is required.'',
                               Str ''The email must be valid.''])]"
  let ?body = "Obj [(''errors'', Obj ?ps)]"
  let ?resp = "Obj [(''status'', Num 422), (''data'', ?body)]"
  have c0: "calls submitted_world = []"
    by (simp add: submitted_world_def post_def request_io contact_world_io)
  have 1: "get_prop submitted_world invalid_email_422 ''response'' = Inr ?resp"
    by (simp add: invalid_email_422_def lookup_def)
  have 2: "get_prop submitted_world ?resp ''status'' = Inr (Num 422)"
    by (simp add: lookup_def)
  have 3: "get_prop submitted_world ?resp ''data'' = Inr ?body"
    by (simp add: lookup_def)
  have 4: "get_prop submitted_world ?body ''errors'' = Inr (Obj ?ps)"
    by (simp add: lookup_def)
  have 5: "distinct (map fst ?ps)" by simp
  have 6: "list_all message_list (map snd ?ps)" by simp
  have 7: "''__proto__'' \<notin> fst ` set ?ps" by simp
  have 8: "unshadowed submitted_world 1" using unshadowed_submitted_world by simp
  from validation_errors_populated[OF submitted_world_pending 1 2 3 4 5 6 7 8] 1 c0
    submitted_world_pending 8
  show ?thesis by (auto simp: observers_def)
qed

section \<open>reset\<close>

lemma reassign_frame:
  assumes "priv_fields (forms w this) = fl" "errors (forms w this) \<noteq> fl"
    "set ks \<subseteq> set (accessors (forms w this))" "set ks \<subseteq> fst ` set (objs w fl)"
    "distinct (map fst (objs w fl))"
  shows "objs (reassign w this ks) fl = objs w fl \<and> forms (reassign w this ks) this = forms w this"
  using assms
proof (induction ks arbitrary: w)
  case Nil
  then show ?case by simp
next
  case (Cons k ks)
  let ?v = "lookup (objs w (priv_fields (forms w this))) k"
  let ?w1 = "set_property w this k ?v"
  from Cons.prems have "k \<in> fst ` set (objs w fl)" by simp
  then obtain v where v: "map_of (objs w fl) k = Some v"
    by (cases "map_of (objs w fl) k") (auto simp: map_of_eq_None_iff)
  then have same: "AList.update k ?v (objs w fl) = objs w fl"
    using Cons.prems(1) by (simp add: lookup_def update_triv)
  have 1: "objs ?w1 fl = objs w fl" "forms ?w1 this = forms w this"
    using Cons.prems same
    by (auto simp: set_property_def accessor_set_def upd_obj_def Let_def)
  have "objs (reassign ?w1 this ks) fl = objs ?w1 fl
        \<and> forms (reassign ?w1 this ks) this = forms ?w1 this"
    using Cons.prems 1 by (intro Cons.IH) auto
  then show ?case using 1 by simp
qed

lemma reset_result:
  assumes k: "keeps this a0 init (fst ` set init) w" and d: "distinct (map fst init)"
  shows "fst (reset w this) = this"
    and "objs (snd (reset w this)) (priv_fields (forms (snd (reset w this)) this)) = init"
    and "objs (snd (reset w this)) (errors (forms (snd (reset w this)) this)) = []"
    and "fst ` set init \<subseteq> set (accessors (forms (snd (reset w this)) this))"
proof -
  let ?fl = "next_addr w"
  let ?w2 = "upd_form this (\<lambda>f. f\<lparr>priv_fields := ?fl\<rparr>)
               (snd (alloc (object_assign [] (objs w (priv_initialData (forms w this)))) w))"
  let ?w3 = "reassign ?w2 this (map fst (objs ?w2 (priv_fields (forms ?w2 this))))"
  have r: "reset w this = clearErrors ?w3 this"
    by (simp add: reset_def alloc_def Let_def)
  from k have wf: "wf_world w" and a0: "priv_initialData (forms w this) = a0" "objs w a0 = init"
    and acc: "fst ` set init \<subseteq> set (accessors (forms w this))"
    by (auto simp: keeps_def)
  have o2: "objs ?w2 ?fl = init" "priv_fields (forms ?w2 this) = ?fl"
    "errors (forms ?w2 this) \<noteq> ?fl" "accessors (forms ?w2 this) = accessors (forms w this)"
    "next_addr ?w2 = Suc ?fl"
    using a0 d wf by (simp_all add: alloc_def upd_form_def object_assign_copy)
  have fr: "objs ?w3 ?fl = objs ?w2 ?fl \<and> forms ?w3 this = forms ?w2 this"
    unfolding o2(2) using o2 acc d by (intro reassign_frame) auto
  have n3: "next_addr ?w3 = Suc ?fl" using o2(5) by simp
  show "fst (reset w this) = this" by (simp add: r clearErrors_def split: prod.splits)
  show "objs (snd (reset w this)) (priv_fields (forms (snd (reset w this)) this)) = init"
    using fr o2 n3 by (simp add: r clearErrors_def alloc_def upd_form_def)
  show "objs (snd (reset w this)) (errors (forms (snd (reset w this)) this)) = []"
    by (simp add: r clearErrors_def alloc_def upd_form_def)
  show "fst ` set init \<subseteq> set (accessors (forms (snd (reset w this)) this))"
    using fr o2 acc by (simp add: r clearErrors_def alloc_def upd_form_def)
qed

text \<open>
  C5. Take any form made by \<open>useForm\<close> from a field mapping \<open>init\<close>, and let any sequence
  of operations follow: field writes, \<open>setError\<close> calls, submissions and their answers,
  also on other forms, also writes through the object returned by \<open>fields\<close>. Then
  \<open>reset()\<close> returns the same form, the field mapping is again exactly \<open>init\<close>, every
  field property reads its initial value, and the error mapping is empty.
\<close>

theorem reset_restores_initial:
  assumes "wf_world w0" and "declarable init" and "\<forall>x \<in> set ops. plain x"
    and "useForm w0 init = (this, w1)" and "reset (run w1 ops) this = (r, w3)"
  shows "r = this \<and> fields_of w3 this = init
         \<and> (\<forall>(k, v) \<in> set init. get_property w3 this k = v)
         \<and> errors_of w3 this = [] \<and> \<not> hasErrors w3 this"
proof -
  from assms(2) have d: "distinct (map fst init)" by (simp add: declarable_def)
  have "keeps this (Suc (Suc (Suc (Suc (next_addr w0))))) init (fst ` set init) w1"
    using Form_keeps[OF assms(1) d] assms(4) by (simp add: useForm_def)
  then have k: "keeps this (Suc (Suc (Suc (Suc (next_addr w0))))) init (fst ` set init)
      (run w1 ops)"
    by (rule keeps_run)
  note rr = reset_result[OF k d, unfolded assms(5), simplified]
  have "get_property w3 this k = v" if "(k, v) \<in> set init" for k v
  proof -
    from that rr(4) have "k \<in> set (accessors (forms w3 this))" by force
    moreover from that d have "map_of init k = Some v" by simp
    ultimately show ?thesis using rr(2)
      by (simp add: get_property_def accessor_get_def lookup_def)
  qed
  then show ?thesis using rr by (auto simp: hasErrors_def)
qed

theorem reset_restores_initial_witness:
  "wf_world init_world \<and> declarable contact_fields \<and> list_all plain session
   \<and> fst (reset (run (snd (useForm init_world contact_fields)) session) 1) = 1
   \<and> fields_of (snd (reset (run (snd (useForm init_world contact_fields)) session) 1)) 1
      = contact_fields
   \<and> \<not> hasErrors (snd (reset (run (snd (useForm init_world contact_fields)) session) 1)) 1"
proof -
  have 1: "declarable contact_fields"
    by (simp add: declarable_def contact_fields_def member_names_def)
  have 2: "\<forall>x \<in> set session. plain x"
    by (simp add: session_def member_names_def)
  have 3: "useForm init_world contact_fields = (1, snd (useForm init_world contact_fields))"
    by (simp add: prod_eq_iff fst_useForm init_world_def)
  have 4: "reset (run (snd (useForm init_world contact_fields)) session) 1
           = (fst (reset (run (snd (useForm init_world contact_fields)) session) 1),
              snd (reset (run (snd (useForm init_world contact_fields)) session) 1))"
    by simp
  from reset_restores_initial[OF wf_init_world 1 2 3 4] wf_init_world 1 2
  show ?thesis by (simp add: list_all_iff)
qed

section \<open>Field properties\<close>

lemma accessor_write:
  assumes "key \<in> set (accessors (forms w this))"
    and "priv_fields (forms w this) \<noteq> errors (forms w this)"
  shows "get_property w this key = lookup (fields_of w this) key"
    and "get_property (set_property w this key v) this key = v"
    and "fields_of (set_property w this key v) this = AList.update key v (fields_of w this)"
    and "errors_of (set_property w this key v) this = AList.delete key (errors_of w this)"
    and "key \<notin> fst ` set (errors_of (set_property w this key v) this)"
    and "forms (set_property w this key v) = forms w"
proof -
  show "get_property w this key = lookup (fields_of w this) key"
    using assms(1) by (simp add: get_property_def accessor_get_def)
  show f: "forms (set_property w this key v) = forms w"
    using assms(1) by (simp add: set_property_def accessor_set_def upd_obj_def Let_def)
  show "fields_of (set_property w this key v) this = AList.update key v (fields_of w this)"
    using assms by (simp add: set_property_def accessor_set_def upd_obj_def Let_def)
  then show "get_property (set_property w this key v) this key = v"
    using assms(1) f by (simp add: get_property_def accessor_get_def lookup_def update_conv')
  show e: "errors_of (set_property w this key v) this = AList.delete key (errors_of w this)"
    using assms by (auto simp: set_property_def accessor_set_def upd_obj_def Let_def)
  show "key \<notin> fst ` set (errors_of (set_property w this key v) this)"
    unfolding e by (rule delete_notin_dom)
qed

text \<open>
  C6. For a form made by \<open>useForm\<close> from \<open>init\<close> and for every field name of \<open>init\<close>:
  on the new form, reading the property gives the initial value; after any sequence of
  operations, reading it gives the value stored in \<open>_fields\<close>; writing \<open>v\<close> stores \<open>v\<close>,
  so that reading gives \<open>v\<close>, and removes the name from the error mapping.
\<close>

theorem field_write_clears_error:
  assumes "wf_world w0" and "declarable init" and "\<forall>x \<in> set ops. plain x"
    and "useForm w0 init = (this, w1)" and "key \<in> fst ` set init"
  shows "get_property w1 this key = lookup init key
    \<and> get_property (run w1 ops) this key = lookup (fields_of (run w1 ops) this) key
    \<and> get_property (set_property (run w1 ops) this key v) this key = v
    \<and> fields_of (set_property (run w1 ops) this key v) this
        = AList.update key v (fields_of (run w1 ops) this)
    \<and> errors_of (set_property (run w1 ops) this key v) this
        = AList.delete key (errors_of (run w1 ops) this)
    \<and> key \<notin> fst ` set (errors_of (set_property (run w1 ops) this key v) this)"
proof -
  from assms(2) have d: "distinct (map fst init)" by (simp add: declarable_def)
  have "keeps this (Suc (Suc (Suc (Suc (next_addr w0))))) init (fst ` set init) w1"
    using Form_keeps[OF assms(1) d] assms(4) by (simp add: useForm_def)
  then have "keeps this (Suc (Suc (Suc (Suc (next_addr w0))))) init (fst ` set init)
      (run w1 ops)"
    by (rule keeps_run)
  then have a: "key \<in> set (accessors (forms (run w1 ops) this))"
    and n: "priv_fields (forms (run w1 ops) this) \<noteq> errors (forms (run w1 ops) this)"
    using assms(5) by (auto simp: keeps_def)
  from useForm_result[OF d, of w0] assms(4,5)
  have "get_property w1 this key = lookup init key"
    by (simp add: get_property_def accessor_get_def)
  with accessor_write[OF a n] show ?thesis by simp
qed

theorem field_write_clears_error_witness:
  "wf_world init_world \<and> declarable contact_fields \<and> list_all plain session
   \<and> ''email'' \<in> fst ` set contact_fields
   \<and> get_property (set_property (run (snd (useForm init_world contact_fields)) session) 1
        ''email'' (Str ''x'')) 1 ''email'' = Str ''x''
   \<and> ''email'' \<notin> fst ` set (errors_of (set_property
        (run (snd (useForm init_world contact_fields)) session) 1 ''email'' (Str ''x'')) 1)"
proof -
  have 1: "declarable contact_fields"
    by (simp add: declarable_def contact_fields_def member_names_def)
  have 2: "\<forall>x \<in> set session. plain x"
    by (simp add: session_def member_names_def)
  have 3: "useForm init_world contact_fields = (1, snd (useForm init_world contact_fields))"
    by (simp add: prod_eq_iff fst_useForm init_world_def)
  have 4: "''email'' \<in> fst ` set contact_fields"
    by (simp add: contact_fields_def)
  from field_write_clears_error[OF wf_init_world 1 2 3 4, of "Str ''x''"] wf_init_world 1 2 4
  show ?thesis by (simp add: list_all_iff delete_notin_dom)
qed

section \<open>Request bodies\<close>

lemma request_sends:
  assumes "wf_world w"
  shows "sent (request w this m u d opts)
      = sent w @ [(case http w of None \<Rightarrow> Default (created w) | Some c \<Rightarrow> c,
                   object_assign [(''method'', Str m), (''url'', Str u)] d)]"
    and "priv_fields (forms (request w this m u d opts) this) = priv_fields (forms w this)"
    and "fields_of (request w this m u d opts) this = fields_of w this"
  using assms
  by (auto simp: request_def clearErrors_def alloc_def upd_form_def Let_def axios_create_def
      setAxiosInstance_def split: option.splits)

text \<open>
  C7. \<open>post\<close>, \<open>put\<close> and \<open>patch\<close> hand the client a configuration whose \<open>data\<close>
  is the form's field object, with the content it has at the call; the configuration of
  \<open>delete\<close> has a method and a URL and no \<open>data\<close>. The form has no field or property
  named like a member of the class, so the four methods are the ones the class defines.
\<close>

theorem submission_bodies:
  assumes "wf_world w" and "unshadowed w this"
  shows "sent (post w this url opts)
      = sent w @ [(case http w of None \<Rightarrow> Default (created w) | Some c \<Rightarrow> c,
                   [(''method'', Str ''post''), (''url'', Str url),
                    (''data'', Ref (priv_fields (forms w this)))])]
    \<and> sent (put w this url opts)
      = sent w @ [(case http w of None \<Rightarrow> Default (created w) | Some c \<Rightarrow> c,
                   [(''method'', Str ''put''), (''url'', Str url),
                    (''data'', Ref (priv_fields (forms w this)))])]
    \<and> sent (patch w this url opts)
      = sent w @ [(case http w of None \<Rightarrow> Default (created w) | Some c \<Rightarrow> c,
                   [(''method'', Str ''patch''), (''url'', Str url),
                    (''data'', Ref (priv_fields (forms w this)))])]
    \<and> fields_of (post w this url opts) this = fields_of w this
    \<and> fields_of (put w this url opts) this = fields_of w this
    \<and> fields_of (patch w this url opts) this = fields_of w this
    \<and> priv_fields (forms (post w this url opts) this) = priv_fields (forms w this)
    \<and> priv_fields (forms (put w this url opts) this) = priv_fields (forms w this)
    \<and> priv_fields (forms (patch w this url opts) this) = priv_fields (forms w this)
    \<and> sent (delete w this url opts)
      = sent w @ [(case http w of None \<Rightarrow> Default (created w) | Some c \<Rightarrow> c,
                   [(''method'', Str ''delete''), (''url'', Str url)])]"
  using request_sends[OF assms(1)]
  by (simp add: post_def put_def patch_def delete_def fields_get_def object_assign_def)

theorem submission_bodies_witness:
  "wf_world contact_world \<and> unshadowed contact_world 1
   \<and> sent (post contact_world 1 ''/api/contact'' observers)
      = [(Default 0, [(''method'', Str ''post''), (''url'', Str ''/api/contact''),
                      (''data'', Ref 6)])]
   \<and> fields_of (post contact_world 1 ''/api/contact'' observers) 1 = contact_fields
   \<and> sent (delete contact_world 1 ''/api/contact'' observers)
      = [(Default 0, [(''method'', Str ''delete''), (''url'', Str ''/api/contact'')])]"
  using submission_bodies[OF wf_contact_world, of 1 "''/api/contact''" observers]
    wf_contact_world unshadowed_contact_world
  by (auto simp: contact_world_form contact_world_io contact_world_objs)

section \<open>The fields getter\<close>




section \<open>setError without a message\<close>

text \<open>
  C9. \<open>setError\<close> with a name and \<open>null\<close>, or with a name and no message, stores
  that value under the name; the bulk form stores \<open>undefined\<close> under a field whose
  message list is empty. In each case the name is in the error mapping afterwards and
  \<open>hasErrors\<close> is true. The name is not \<open>__proto__\<close>, and the form has no field or
  property named like a member of the class.
\<close>

theorem setError_stores_key_without_message:
  assumes "key \<noteq> ''__proto__''" and "unshadowed w this"
  shows "hasErrors (snd (setError w this (Str key) Null)) this
   \<and> map_of (errors_of (snd (setError w this (Str key) Null)) this) key = Some Null
   \<and> hasErrors (snd (setError w this (Str key) Undefined)) this
   \<and> map_of (errors_of (snd (setError w this (Str key) Undefined)) this) key = Some Undefined
   \<and> (distinct (map fst ps) \<and> list_all is_array (map snd ps) \<and> (field, Arr []) \<in> set ps
        \<and> field \<noteq> ''__proto__''
        \<longrightarrow> fst (setError w this (Obj ps) message) = Inr this
          \<and> map_of (errors_of (snd (setError w this (Obj ps) message)) this) field
              = Some Undefined
          \<and> hasErrors (snd (setError w this (Obj ps) message)) this)"
proof -
  have single: "hasErrors (snd (setError w this (Str key) m)) this
      \<and> map_of (errors_of (snd (setError w this (Str key) m)) this) key = Some m" for m
    by (simp add: setError_def hasErrors_setError_key map_of_setError_key)
  have bulk: "fst (setError w this (Obj ps) message) = Inr this
      \<and> map_of (errors_of (snd (setError w this (Obj ps) message)) this) field = Some Undefined
      \<and> hasErrors (snd (setError w this (Obj ps) message)) this"
    if d: "distinct (map fst ps)" and a: "list_all is_array (map snd ps)"
      and f: "(field, Arr []) \<in> set ps"
  proof -
    from f have ne: "ps \<noteq> []" by auto
    note each = setError_each_arrays_any[OF a ne, of w this]
    obtain r w' where rw: "setError_each w this ps = (r, w')" by (cases "setError_each w this ps")
    with each have r: "r = None"
      and e: "errors_of w' this
          = fold (\<lambda>(k, v). AList.update k (head_of v)) ps (object_assign [] (errors_of w this))"
      by simp_all
    have m: "map_of (errors_of w' this) field = Some (head_of (Arr []))"
      unfolding e by (rule map_of_fold_update[OF d f])
    then have "errors_of w' this \<noteq> []" by auto
    then show ?thesis using rw r m by (simp add: setError_def hasErrors_def)
  qed
  from single[of Null] single[of Undefined] bulk show ?thesis by blast
qed

theorem setError_stores_key_without_message_witness:
  "''name'' \<noteq> ''__proto__'' \<and> unshadowed contact_world 1
   \<and> distinct (map fst [(''email'', Arr [])]) \<and> list_all is_array (map snd [(''email'', Arr [])])
   \<and> (''email'', Arr []) \<in> set [(''email'', Arr [])] \<and> ''email'' \<noteq> ''__proto__''
   \<and> fst (setError contact_world 1 (Obj [(''email'', Arr [])]) Undefined) = Inr 1
   \<and> map_of (errors_of (snd (setError contact_world 1 (Obj [(''email'', Arr [])]) Undefined)) 1)
        ''email'' = Some Undefined
   \<and> hasErrors (snd (setError contact_world 1 (Obj [(''email'', Arr [])]) Undefined)) 1
   \<and> map_of (errors_of (snd (setError contact_world 1 (Str ''name'') Null)) 1) ''name''
      = Some Null
   \<and> hasErrors (snd (setError contact_world 1 (Str ''name'') Null)) 1"
proof -
  have 1: "''name'' \<noteq> ''__proto__''" by simp
  have 2: "unshadowed contact_world 1" using unshadowed_contact_world by simp
  from setError_stores_key_without_message
         [OF 1 2, of "[(''email'', Arr [])]" "''email''" Undefined] 2
  show ?thesis by simp
qed

section \<open>The shared client\<close>





end
